theory Spec2Isabelle
  imports Main "HOL-Library.Multiset" "HOL-Library.AList"
begin

text \<open>
  A shallow embedding of the lineup and recommendation engine of Fantasyzer
  (\<^verbatim>\<open>src/fantasy_draft_tool.py\<close>): the name normaliser, the identity resolution of
  \<^verbatim>\<open>match_players\<close>, the weekly analysis with its slot allocation, the optimal-lineup
  comparison and the rest-of-season recommendations. Dictionaries are records, lists are
  lists, loops are recursive functions or folds, and the two scorers of the fuzzy-matching
  library are parameters. The definitions come first, the properties after them.
\<close>

section \<open>Strings\<close>

text \<open>
  Python strings are modelled as \<^typ>\<open>string\<close> restricted to ASCII text. On ASCII,
  \<^verbatim>\<open>unicodedata.normalize("NFKD", s)\<close> is the identity and no character is a combining
  mark; accented input is outside this model. The whitespace class is the one of
  \<^verbatim>\<open>str.isspace\<close>, \<^verbatim>\<open>str.split()\<close>, \<^verbatim>\<open>str.strip()\<close> and of \<^verbatim>\<open>\s\<close> in a
  \<^verbatim>\<open>str\<close> pattern: the code points 9 to 13, 28 to 31 and 32.
\<close>

definition code :: "char \<Rightarrow> nat" where
  "code c = of_char c"

definition is_space :: "char \<Rightarrow> bool" where
  "is_space c = ((9 \<le> code c \<and> code c \<le> 13) \<or> (28 \<le> code c \<and> code c \<le> 32))"

definition is_lower :: "char \<Rightarrow> bool" where
  "is_lower c = (97 \<le> code c \<and> code c \<le> 122)"

definition is_upper :: "char \<Rightarrow> bool" where
  "is_upper c = (65 \<le> code c \<and> code c \<le> 90)"

definition is_digit :: "char \<Rightarrow> bool" where
  "is_digit c = (48 \<le> code c \<and> code c \<le> 57)"

definition is_alpha :: "char \<Rightarrow> bool" where
  "is_alpha c = (is_lower c \<or> is_upper c)"

definition is_word :: "char \<Rightarrow> bool" where
  \<comment> \<open>the class \<^verbatim>\<open>\w\<close>, which decides where \<^verbatim>\<open>\b\<close> matches\<close>
  "is_word c = (is_alpha c \<or> is_digit c \<or> c = CHR ''_'')"

definition lower_char :: "char \<Rightarrow> char" where
  "lower_char c = (if is_upper c then char_of (code c + 32) else c)"

definition upper_char :: "char \<Rightarrow> char" where
  "upper_char c = (if is_lower c then char_of (code c - 32) else c)"

definition lower :: "string \<Rightarrow> string" where
  "lower s = map lower_char s"

definition upper :: "string \<Rightarrow> string" where
  "upper s = map upper_char s"

definition strip :: "string \<Rightarrow> string" where
  "strip s = rev (dropWhile is_space (rev (dropWhile is_space s)))"

text \<open>\<^verbatim>\<open>s.split()\<close>: the maximal runs of non-whitespace characters.\<close>

function split :: "string \<Rightarrow> string list" where
  "split s =
     (let t = dropWhile is_space s
      in if t = [] then []
         else takeWhile (\<lambda>c. \<not> is_space c) t # split (dropWhile (\<lambda>c. \<not> is_space c) t))"
  by pat_completeness auto
termination
proof (relation "measure length", goal_cases)
  case 1
  show ?case by simp
next
  case (2 s t)
  then obtain c cs where t: "t = c # cs" and c: "\<not> is_space c"
    by (metis hd_dropWhile list.exhaust list.sel(1))
  have "length (dropWhile (\<lambda>c. \<not> is_space c) t) \<le> length cs"
    using t c by (simp add: length_dropWhile_le)
  moreover have "length t \<le> length s"
    using 2 by (simp add: length_dropWhile_le)
  ultimately show ?case using t by simp
qed

declare split.simps [simp del]

text \<open>\<^verbatim>\<open>s.split(" ")\<close>: the pieces between single spaces; never an empty list.\<close>

fun split_on_space :: "string \<Rightarrow> string list" where
  "split_on_space [] = [[]]"
| "split_on_space (c # cs) =
     (if c = CHR '' '' then [] # split_on_space cs
      else (case split_on_space cs of
              [] \<Rightarrow> [[c]]
            | w # ws \<Rightarrow> (c # w) # ws))"

text \<open>\<^verbatim>\<open>x.split()[0] if x.split() else ""\<close>\<close>

definition first_token :: "string \<Rightarrow> string" where
  "first_token s = (case split s of [] \<Rightarrow> [] | w # _ \<Rightarrow> w)"

text \<open>\<^verbatim>\<open>a in b\<close> on strings: \<open>a\<close> occurs in \<open>b\<close> as a contiguous run.\<close>

fun starts_with :: "string \<Rightarrow> string \<Rightarrow> bool" where
  "starts_with [] s = True"
| "starts_with (a # as) [] = False"
| "starts_with (a # as) (c # cs) = (a = c \<and> starts_with as cs)"

fun str_contains :: "string \<Rightarrow> string \<Rightarrow> bool" where
  "str_contains a [] = (a = [])"
| "str_contains a (c # cs) = (starts_with a (c # cs) \<or> str_contains a cs)"

section \<open>NameNormalizer\<close>


datatype py_error = AttributeError | ValueError | KeyError


definition nfkd :: "string \<Rightarrow> string" where
  "nfkd s = s"

definition combining :: "char \<Rightarrow> bool" where
  "combining c = False"

text \<open>\<^verbatim>\<open>re.sub(r"[^a-z0-9\s]", " ", s)\<close>\<close>

definition sub_punctuation :: "string \<Rightarrow> string" where
  "sub_punctuation s =
     map (\<lambda>c. if is_lower c \<or> is_digit c \<or> is_space c then c else CHR '' '') s"

definition suffixes :: "string list" where
  "suffixes = [''jr'', ''sr'', ''ii'', ''iii'', ''iv'', ''v'']"

text \<open>
  \<^verbatim>\<open>re.sub(r"\b(jr|sr|ii|iii|iv|v)\b", " ", s)\<close>: a match starts and ends at a word
  boundary and consists of word characters, so it is a whole word; the scan goes left to
  right over the words.
\<close>

function sub_suffixes :: "string \<Rightarrow> string" where
  "sub_suffixes [] = []"
| "sub_suffixes (c # cs) =
     (if is_word c
      then (let w = c # takeWhile is_word cs
            in (if w \<in> set suffixes then '' '' else w) @ sub_suffixes (dropWhile is_word cs))
      else c # sub_suffixes cs)"
  by pat_completeness auto
termination
  by (relation "measure length") (auto simp: length_dropWhile_le less_Suc_eq_le)

text \<open>\<^verbatim>\<open>re.sub(r"\s+", " ", s)\<close>\<close>

function collapse_spaces :: "string \<Rightarrow> string" where
  "collapse_spaces [] = []"
| "collapse_spaces (c # cs) =
     (if is_space c then CHR '' '' # collapse_spaces (dropWhile is_space cs)
      else c # collapse_spaces cs)"
  by pat_completeness auto
termination
  by (relation "measure length") (auto simp: length_dropWhile_le less_Suc_eq_le)

text \<open>The body of \<^verbatim>\<open>_normalize_name\<close> on a string.\<close>

definition normalize_str :: "string \<Rightarrow> string" where
  "normalize_str s =
     (if s = [] then []
      else (let name_low = filter (\<lambda>c. \<not> combining c) (nfkd (lower s));
                cleaned = sub_punctuation name_low;
                cleaned = sub_suffixes cleaned
            in strip (collapse_spaces cleaned)))"


section \<open>Data\<close>

text \<open>
  The dictionaries of the source become records whose fields are strings. In a directory
  entry, a key that is absent, or whose value is \<^verbatim>\<open>None\<close> or empty, is the empty string
  here: the name matching reads these fields through \<^verbatim>\<open>.get\<close> and treats the three
  alike. Two inputs are outside this model, since the source raises on them: a ranked row
  with a \<^verbatim>\<open>None\<close> field (\<^verbatim>\<open>.strip()\<close> of \<^verbatim>\<open>None\<close>), and a defence of the directory
  whose \<^verbatim>\<open>full_name\<close> is present with the value \<^verbatim>\<open>None\<close> (\<^verbatim>\<open>in\<close> on \<^verbatim>\<open>None\<close>). Ranks
  are Python integers.
\<close>

text \<open>A row of a weekly rankings file: the columns PLAYER NAME, POS and TEAM.\<close>

record ranking =
  PLAYER_NAME :: string
  POS :: string
  TEAM :: string

record weekly_rankings =
  OP :: "ranking list"
  DST :: "ranking list"
  K :: "ranking list"

text \<open>An entry of the Sleeper player directory.\<close>

record sleeper_player =
  sp_full_name :: string
  sp_search_full_name :: string
  sp_first_name :: string
  sp_last_name :: string
  sp_team :: string
  sp_position :: string

type_synonym directory = "(string \<times> sleeper_player) list"

text \<open>\<^verbatim>\<open>{'player_id': pid}\<close>, the element of \<^verbatim>\<open>user_players\<close> and \<^verbatim>\<open>all_league_players\<close>.\<close>

record roster_player =
  player_id :: string

text \<open>
  The dictionary the analysis builds for a player of a lineup. The keys \<^verbatim>\<open>flex_slot\<close>,
  \<^verbatim>\<open>position_with_rank\<close> and \<^verbatim>\<open>sleeper_id\<close> may be absent (\<open>None\<close>); the keys
  \<^verbatim>\<open>is_waiver_wire\<close> and \<^verbatim>\<open>is_free_agent\<close> are read with a default of false.
\<close>

record player =
  name :: string
  position :: string
  position_with_rank :: "string option"
  rank :: int
  team :: string
  sleeper_id :: "string option"
  is_on_roster :: bool
  is_free_agent :: bool
  flex_slot :: "string option"
  is_waiver_wire :: bool

text \<open>An entry of the defence and kicker lists, which has no \<^verbatim>\<open>position\<close> key yet.\<close>

record ranked_entry =
  e_name :: string
  e_rank :: int
  e_team :: string
  e_sleeper_id :: "string option"
  e_is_on_roster :: bool

text \<open>
  \<^verbatim>\<open>roster_settings\<close>: slot name to count, in the order of the dictionary. The counts come
  from counting the league's roster positions, so they are natural numbers.
\<close>

type_synonym roster_settings = "(string \<times> nat) list"

definition rs_get :: "roster_settings \<Rightarrow> string \<Rightarrow> nat" where
  \<comment> \<open>\<^verbatim>\<open>roster_settings.get(k, 0)\<close>\<close>
  "rs_get rs k = (case map_of rs k of None \<Rightarrow> 0 | Some n \<Rightarrow> n)"

section \<open>The fuzzy-matching library\<close>

text \<open>
  \<^verbatim>\<open>fuzz.token_sort_ratio\<close> and \<^verbatim>\<open>fuzz.ratio\<close> belong to the library \<^verbatim>\<open>fuzzywuzzy\<close>, not
  to this program: they are parameters \<open>tsr\<close> and \<open>ratio\<close> of every function that uses
  them. \<^verbatim>\<open>process.extractOne(query, choices, scorer=s)\<close> returns the pair of the choice
  with the highest score and that score, the first one among equals, and \<^verbatim>\<open>None\<close> when
  there is no choice.
\<close>

type_synonym scorer = "string \<Rightarrow> string \<Rightarrow> nat"

fun best_of :: "string \<times> nat \<Rightarrow> (string \<times> nat) list \<Rightarrow> string \<times> nat" where
  "best_of b [] = b"
| "best_of b (x # xs) = best_of (if snd b < snd x then x else b) xs"

definition extractOne :: "scorer \<Rightarrow> string \<Rightarrow> string list \<Rightarrow> (string \<times> nat) option" where
  "extractOne s query choices =
     (case map (\<lambda>c. (c, s query c)) choices of
        [] \<Rightarrow> None
      | x # xs \<Rightarrow> Some (best_of x xs))"

section \<open>LineupAnalyzer: resolving the offensive rankings\<close>

definition base_position :: "string \<Rightarrow> string" where
  \<comment> \<open>the prefix before the first digit, when the label starts with a letter\<close>
  "base_position pwr =
     (if pwr \<noteq> [] \<and> is_alpha (hd pwr)
      then takeWhile (\<lambda>c. \<not> is_digit c) pwr
      else pwr)"

definition on_roster_player :: "string \<Rightarrow> string \<Rightarrow> nat \<Rightarrow> string \<Rightarrow> string \<Rightarrow> player" where
  "on_roster_player player_name pwr rank_idx tm pid =
     \<lparr> name = player_name, position = base_position pwr, position_with_rank = Some pwr,
       rank = int rank_idx + 1, team = tm, sleeper_id = Some pid, is_on_roster = True,
       is_free_agent = False, flex_slot = None, is_waiver_wire = False \<rparr>"

text \<open>
  The first loop over \<^verbatim>\<open>user_players\<close>: the first roster player whose directory name
  equals the ranked name, exactly or after normalisation.
\<close>

fun exact_match :: "directory \<Rightarrow> string \<Rightarrow> string \<Rightarrow> nat \<Rightarrow> roster_player list \<Rightarrow> player option" where
  "exact_match sleeper_players player_name pwr rank_idx [] = None"
| "exact_match sleeper_players player_name pwr rank_idx (user_player # rest) =
     (case map_of sleeper_players (player_id user_player) of
        None \<Rightarrow> exact_match sleeper_players player_name pwr rank_idx rest
      | Some sp \<Rightarrow>
          if sp_full_name sp = player_name
          then Some (on_roster_player player_name pwr rank_idx (sp_team sp) (player_id user_player))
          else if normalize_str player_name = normalize_str (sp_full_name sp)
          then Some (on_roster_player player_name pwr rank_idx (sp_team sp) (player_id user_player))
          else exact_match sleeper_players player_name pwr rank_idx rest)"

definition roster_candidates :: "directory \<Rightarrow> roster_player list \<Rightarrow> (string \<times> string) list" where
  "roster_candidates sleeper_players user_players =
     concat (map (\<lambda>user_player.
        case map_of sleeper_players (player_id user_player) of
          None \<Rightarrow> []
        | Some sp \<Rightarrow> if sp_full_name sp \<noteq> [] then [(sp_full_name sp, player_id user_player)] else [])
      user_players)"

text \<open>
  The fuzzy step of the analysis: the best candidate of the roster by token-sort score,
  accepted at a score of 95 and a first-name similarity of 85.
\<close>

definition fuzzy_match ::
  "scorer \<Rightarrow> scorer \<Rightarrow> directory \<Rightarrow> string \<Rightarrow> string \<Rightarrow> nat \<Rightarrow> roster_player list \<Rightarrow> player option" where
  "fuzzy_match tsr ratio sleeper_players player_name pwr rank_idx user_players =
     (let cands = roster_candidates sleeper_players user_players
      in if cands = [] then None
         else (case extractOne tsr player_name (map fst cands) of
                 None \<Rightarrow> None
               | Some (matched_name, score) \<Rightarrow>
                   if 95 \<le> score
                   then (let fp_first = first_token (lower (normalize_str player_name));
                             sleeper_first = first_token (lower (normalize_str matched_name))
                         in if 0 < length fp_first \<and> 0 < length sleeper_first
                               \<and> 85 \<le> ratio fp_first sleeper_first
                            then (case find (\<lambda>(nm, pid). nm = matched_name) cands of
                                    None \<Rightarrow> None
                                  | Some (nm, pid) \<Rightarrow>
                                      (case map_of sleeper_players pid of
                                         None \<Rightarrow> None
                                       | Some sp \<Rightarrow>
                                           Some (on_roster_player player_name pwr rank_idx (sp_team sp) pid)))
                            else None)
                   else None))"

text \<open>One ranked row: skipped when a field is missing, else resolved against the roster.\<close>

definition resolve_ranking ::
  "scorer \<Rightarrow> scorer \<Rightarrow> directory \<Rightarrow> roster_player list \<Rightarrow> nat \<times> ranking \<Rightarrow> player option" where
  "resolve_ranking tsr ratio sleeper_players user_players ir =
     (let rank_idx = fst ir;
          player_name = strip (PLAYER_NAME (snd ir));
          pwr = strip (POS (snd ir))
      in if player_name = [] \<or> pwr = [] then None
         else (case exact_match sleeper_players player_name pwr rank_idx user_players of
                 Some p \<Rightarrow> Some p
               | None \<Rightarrow> fuzzy_match tsr ratio sleeper_players player_name pwr rank_idx user_players))"

text \<open>\<^verbatim>\<open>user_offensive_players\<close>, after the sort by rank (Python's sort is stable).\<close>

definition user_offensive_players ::
  "scorer \<Rightarrow> scorer \<Rightarrow> weekly_rankings \<Rightarrow> roster_player list \<Rightarrow> directory \<Rightarrow> player list" where
  "user_offensive_players tsr ratio wr user_players sleeper_players =
     sort_key rank
       (List.map_filter (resolve_ranking tsr ratio sleeper_players user_players)
          (enumerate 0 (OP wr)))"

section \<open>LineupAnalyzer: defences and kickers\<close>

text \<open>The five ways a ranked defence is taken to be a directory entry.\<close>

definition same_defense :: "sleeper_player \<Rightarrow> string \<Rightarrow> string \<Rightarrow> bool" where
  "same_defense sp team_name team_abbrev =
     (sp_team sp = team_abbrev \<or> sp_team sp = team_name \<or> sp_full_name sp = team_name
      \<or> str_contains team_abbrev (sp_full_name sp) \<or> str_contains team_name (sp_full_name sp))"

fun roster_defense ::
  "directory \<Rightarrow> string \<Rightarrow> string \<Rightarrow> nat \<Rightarrow> roster_player list \<Rightarrow> ranked_entry option" where
  "roster_defense sleeper_players team_name team_abbrev rank_idx [] = None"
| "roster_defense sleeper_players team_name team_abbrev rank_idx (user_player # rest) =
     (case map_of sleeper_players (player_id user_player) of
        None \<Rightarrow> roster_defense sleeper_players team_name team_abbrev rank_idx rest
      | Some sp \<Rightarrow>
          if sp_position sp = ''DEF'' \<and> same_defense sp team_name team_abbrev
          then Some \<lparr> e_name = team_name, e_rank = int rank_idx + 1, e_team = team_abbrev,
                      e_sleeper_id = Some (player_id user_player), e_is_on_roster = True \<rparr>
          else roster_defense sleeper_players team_name team_abbrev rank_idx rest)"

definition defense_owned :: "directory \<Rightarrow> string \<Rightarrow> string \<Rightarrow> roster_player list \<Rightarrow> bool" where
  "defense_owned sleeper_players team_name team_abbrev all_league_players =
     list_ex (\<lambda>league_player.
        case map_of sleeper_players (player_id league_player) of
          None \<Rightarrow> False
        | Some sp \<Rightarrow> sp_position sp = ''DEF'' \<and> same_defense sp team_name team_abbrev)
      all_league_players"

text \<open>
  What the loop does with one ranked row: it joins the roster list, joins the waiver list,
  or is left out (a row without a name, or one owned by another team).
\<close>

datatype placed = OnRoster ranked_entry | Waiver ranked_entry | LeftOut

definition place_defense ::
  "directory \<Rightarrow> roster_player list \<Rightarrow> roster_player list \<Rightarrow> nat \<times> ranking \<Rightarrow> placed" where
  "place_defense sleeper_players user_players all_league_players ir =
     (let rank_idx = fst ir;
          team_name = strip (PLAYER_NAME (snd ir));
          team_abbrev = strip (TEAM (snd ir))
      in if team_name = [] then LeftOut
         else (case roster_defense sleeper_players team_name team_abbrev rank_idx user_players of
                 Some e \<Rightarrow> OnRoster e
               | None \<Rightarrow>
                   if defense_owned sleeper_players team_name team_abbrev all_league_players
                   then LeftOut
                   else Waiver \<lparr> e_name = team_name, e_rank = int rank_idx + 1,
                                 e_team = team_abbrev, e_sleeper_id = None,
                                 e_is_on_roster = False \<rparr>))"

fun roster_kicker ::
  "directory \<Rightarrow> string \<Rightarrow> nat \<Rightarrow> roster_player list \<Rightarrow> ranked_entry option" where
  "roster_kicker sleeper_players player_name rank_idx [] = None"
| "roster_kicker sleeper_players player_name rank_idx (user_player # rest) =
     (case map_of sleeper_players (player_id user_player) of
        None \<Rightarrow> roster_kicker sleeper_players player_name rank_idx rest
      | Some sp \<Rightarrow>
          if sp_position sp = ''K''
             \<and> (sp_full_name sp = player_name
                \<or> normalize_str player_name = normalize_str (sp_full_name sp))
          then Some \<lparr> e_name = player_name, e_rank = int rank_idx + 1, e_team = sp_team sp,
                      e_sleeper_id = Some (player_id user_player), e_is_on_roster = True \<rparr>
          else roster_kicker sleeper_players player_name rank_idx rest)"

definition kicker_owned :: "directory \<Rightarrow> string \<Rightarrow> roster_player list \<Rightarrow> bool" where
  "kicker_owned sleeper_players player_name all_league_players =
     list_ex (\<lambda>league_player.
        case map_of sleeper_players (player_id league_player) of
          None \<Rightarrow> False
        | Some sp \<Rightarrow>
            sp_position sp = ''K''
            \<and> (sp_full_name sp = player_name
               \<or> normalize_str (sp_full_name sp) = normalize_str player_name))
      all_league_players"

definition place_kicker ::
  "directory \<Rightarrow> roster_player list \<Rightarrow> roster_player list \<Rightarrow> nat \<times> ranking \<Rightarrow> placed" where
  "place_kicker sleeper_players user_players all_league_players ir =
     (let rank_idx = fst ir;
          player_name = strip (PLAYER_NAME (snd ir));
          team_abbrev = strip (TEAM (snd ir))
      in if player_name = [] then LeftOut
         else (case roster_kicker sleeper_players player_name rank_idx user_players of
                 Some e \<Rightarrow> OnRoster e
               | None \<Rightarrow>
                   if kicker_owned sleeper_players player_name all_league_players
                   then LeftOut
                   else Waiver \<lparr> e_name = player_name, e_rank = int rank_idx + 1,
                                 e_team = team_abbrev, e_sleeper_id = None,
                                 e_is_on_roster = False \<rparr>))"

definition on_roster_entries :: "placed list \<Rightarrow> ranked_entry list" where
  "on_roster_entries ps = concat (map (\<lambda>p. case p of OnRoster e \<Rightarrow> [e] | _ \<Rightarrow> []) ps)"

definition waiver_entries :: "placed list \<Rightarrow> ranked_entry list" where
  "waiver_entries ps = concat (map (\<lambda>p. case p of Waiver e \<Rightarrow> [e] | _ \<Rightarrow> []) ps)"

text \<open>
  The starter among the defences or the kickers: the head of the combined top-5 list when
  it ranks strictly better than the best of the roster, or when the roster has none.
  \<open>ws\<close> is \<^verbatim>\<open>analysis['waiver_suggestions'][..]\<close> and \<open>rs\<close> the roster's list.
\<close>

definition as_starter :: "string \<Rightarrow> bool \<Rightarrow> ranked_entry \<Rightarrow> player" where
  "as_starter pos is_ww e =
     \<lparr> name = e_name e, position = pos, position_with_rank = None, rank = e_rank e,
       team = e_team e, sleeper_id = e_sleeper_id e, is_on_roster = e_is_on_roster e,
       is_free_agent = False, flex_slot = None, is_waiver_wire = is_ww \<rparr>"

definition best_available ::
  "string \<Rightarrow> nat \<Rightarrow> ranked_entry list \<Rightarrow> ranked_entry list \<Rightarrow> player list" where
  "best_available pos needed ws rs =
     (if 0 < needed
      then (case ws of
              best_waiver # _ \<Rightarrow>
                (case rs of
                   best_roster # _ \<Rightarrow>
                     if e_rank best_waiver < e_rank best_roster
                     then [as_starter pos True best_waiver]
                     else [as_starter pos False best_roster]
                 | [] \<Rightarrow> [as_starter pos True best_waiver])
            | [] \<Rightarrow>
                (case rs of
                   best_roster # _ \<Rightarrow> [as_starter pos False best_roster]
                 | [] \<Rightarrow> []))
      else [])"

section \<open>RosterSlotAllocator\<close>

definition requirement_keys :: "string list" where
  "requirement_keys =
     [''QB'', ''RB'', ''WR'', ''TE'', ''WRRB_FLEX'', ''FLEX'', ''WRRBTE_FLEX'', ''SUPER_FLEX'']"

definition position_requirements :: "roster_settings \<Rightarrow> string \<rightharpoonup> nat" where
  "position_requirements rs = map_of (map (\<lambda>k. (k, rs_get rs k)) requirement_keys)"

text \<open>
  First pass. \<open>used\<close> is \<^verbatim>\<open>position_used\<close>; the pair holds \<^verbatim>\<open>starters\<close> and \<^verbatim>\<open>bench\<close>.
\<close>

fun first_pass ::
  "(string \<rightharpoonup> nat) \<Rightarrow> (string \<Rightarrow> nat) \<Rightarrow> player list \<Rightarrow> player list \<times> player list
   \<Rightarrow> player list \<times> player list" where
  "first_pass req used [] sb = sb"
| "first_pass req used (p # ps) sb =
     (case req (position p) of
        Some n \<Rightarrow>
          if used (position p) < n
          then first_pass req (used (position p := used (position p) + 1)) ps (fst sb @ [p], snd sb)
          else first_pass req used ps (fst sb, snd sb @ [p])
      | None \<Rightarrow> first_pass req used ps (fst sb, snd sb @ [p]))"

text \<open>
  Second pass. The three eligibility lists are built once from the bench and then kept up
  to date by hand. \<^verbatim>\<open>bench.remove(x)\<close> would raise if \<open>x\<close> were not on the bench; it
  always is, since each list stays the eligible part of the bench (lemmas
  \<open>eligible_list_head\<close> and \<open>second_pass_refines\<close> below).
\<close>

record alloc =
  all_flex_players :: "player list"
  wrrbte_flex_players :: "player list"
  wrrb_flex_players :: "player list"
  cur_starters :: "player list"
  cur_bench :: "player list"

definition remove_if_present :: "player \<Rightarrow> player list \<Rightarrow> player list" where
  "remove_if_present x xs = (if x \<in> set xs then remove1 x xs else xs)"

definition fill_super_flex :: "alloc \<Rightarrow> alloc" where
  "fill_super_flex a =
     (case all_flex_players a of
        [] \<Rightarrow> a
      | best_flex # rest \<Rightarrow>
          a \<lparr> all_flex_players := rest,
              cur_starters := cur_starters a @ [best_flex \<lparr> flex_slot := Some ''SUPER_FLEX'' \<rparr>],
              cur_bench := remove1 best_flex (cur_bench a),
              wrrbte_flex_players := remove_if_present best_flex (wrrbte_flex_players a),
              wrrb_flex_players := remove_if_present best_flex (wrrb_flex_players a) \<rparr>)"

definition fill_flex :: "string \<Rightarrow> alloc \<Rightarrow> alloc" where
  \<comment> \<open>the loops of FLEX and of WRRBTE\_FLEX, which differ in the label only\<close>
  "fill_flex slot a =
     (case wrrbte_flex_players a of
        [] \<Rightarrow> a
      | best_flex # rest \<Rightarrow>
          a \<lparr> wrrbte_flex_players := rest,
              cur_starters := cur_starters a @ [best_flex \<lparr> flex_slot := Some slot \<rparr>],
              cur_bench := remove1 best_flex (cur_bench a),
              wrrb_flex_players := remove_if_present best_flex (wrrb_flex_players a) \<rparr>)"

definition fill_wrrb_flex :: "alloc \<Rightarrow> alloc" where
  "fill_wrrb_flex a =
     (case wrrb_flex_players a of
        [] \<Rightarrow> a
      | best_flex # rest \<Rightarrow>
          a \<lparr> wrrb_flex_players := rest,
              cur_starters := cur_starters a @ [best_flex \<lparr> flex_slot := Some ''WRRB_FLEX'' \<rparr>],
              cur_bench := remove1 best_flex (cur_bench a) \<rparr>)"

text \<open>
  An eligibility list: the bench players of the given positions, sorted by rank (the sort
  is stable).
\<close>

definition eligible_list :: "string list \<Rightarrow> player list \<Rightarrow> player list" where
  "eligible_list positions bn = sort_key rank (filter (\<lambda>p. position p \<in> set positions) bn)"

definition flex_start :: "player list \<times> player list \<Rightarrow> alloc" where
  "flex_start sb =
     \<lparr> all_flex_players = eligible_list [''QB'', ''RB'', ''WR'', ''TE''] (snd sb),
       wrrbte_flex_players = eligible_list [''RB'', ''WR'', ''TE''] (snd sb),
       wrrb_flex_players = eligible_list [''RB'', ''WR''] (snd sb),
       cur_starters = fst sb,
       cur_bench = snd sb \<rparr>"

definition capacity :: "(string \<rightharpoonup> nat) \<Rightarrow> string \<Rightarrow> nat" where
  \<comment> \<open>\<^verbatim>\<open>position_requirements.get(k, 0)\<close>\<close>
  "capacity req k = (case req k of None \<Rightarrow> 0 | Some c \<Rightarrow> c)"

definition second_pass :: "(string \<rightharpoonup> nat) \<Rightarrow> player list \<times> player list \<Rightarrow> alloc" where
  "second_pass req sb =
     (let a = flex_start sb;
          a = (fill_super_flex ^^ capacity req ''SUPER_FLEX'') a;
          a = (fill_flex ''FLEX'' ^^ capacity req ''FLEX'') a;
          a = (fill_flex ''WRRBTE_FLEX'' ^^ capacity req ''WRRBTE_FLEX'') a
      in (fill_wrrb_flex ^^ capacity req ''WRRB_FLEX'') a)"

text \<open>The two lists an allocation returns.\<close>

definition lineup :: "alloc \<Rightarrow> player list \<times> player list" where
  "lineup a = (cur_starters a, cur_bench a)"

definition allocate :: "roster_settings \<Rightarrow> player list \<Rightarrow> alloc" where
  "allocate rs ps =
     (let req = position_requirements rs
      in second_pass req (first_pass req (\<lambda>pos. 0) ps ([], [])))"

text \<open>
  The order of the returned starters: one place per declared slot, in the order of
  \<^verbatim>\<open>roster_settings\<close>; each place takes the next starter of that slot by rank.
\<close>

definition position_order :: "roster_settings \<Rightarrow> string list" where
  "position_order rs =
     concat (map (\<lambda>(pos, count).
        if 0 < count \<and> pos \<in> set [''QB'', ''RB'', ''WR'', ''TE'', ''SUPER_FLEX'', ''FLEX'',
                                    ''WRRBTE_FLEX'', ''WRRB_FLEX'']
        then replicate count pos else []) rs)"

definition slot_of :: "player \<Rightarrow> string" where
  \<comment> \<open>\<^verbatim>\<open>starter.get('flex_slot', starter['position'])\<close>\<close>
  "slot_of s = (case flex_slot s of Some f \<Rightarrow> f | None \<Rightarrow> position s)"

definition starters_by_pos :: "player list \<Rightarrow> string \<Rightarrow> player list" where
  "starters_by_pos ss pos = sort_key rank (filter (\<lambda>s. slot_of s = pos) ss)"

fun sorted_starters ::
  "(string \<Rightarrow> player list) \<Rightarrow> (string \<Rightarrow> nat) \<Rightarrow> string list \<Rightarrow> player list \<Rightarrow> player list" where
  "sorted_starters by_pos position_counts [] acc = acc"
| "sorted_starters by_pos position_counts (pos # rest) acc =
     (if position_counts pos < length (by_pos pos)
      then sorted_starters by_pos (position_counts (pos := position_counts pos + 1)) rest
             (acc @ [by_pos pos ! position_counts pos])
      else sorted_starters by_pos position_counts rest acc)"

section \<open>LineupAnalyzer: the analysis\<close>

record analysis =
  starters :: "player list"
  bench :: "player list"
  defenses :: "ranked_entry list"
  kickers :: "ranked_entry list"
  waiver_defenses :: "ranked_entry list"
  waiver_kickers :: "ranked_entry list"

definition placed_defenses ::
  "weekly_rankings \<Rightarrow> roster_player list \<Rightarrow> directory \<Rightarrow> roster_player list \<Rightarrow> placed list" where
  "placed_defenses wr user_players sleeper_players all_league_players =
     map (place_defense sleeper_players user_players all_league_players) (enumerate 0 (DST wr))"

definition placed_kickers ::
  "weekly_rankings \<Rightarrow> roster_player list \<Rightarrow> directory \<Rightarrow> roster_player list \<Rightarrow> placed list" where
  "placed_kickers wr user_players sleeper_players all_league_players =
     map (place_kicker sleeper_players user_players all_league_players) (enumerate 0 (K wr))"

definition analyze_weekly_rankings ::
  "scorer \<Rightarrow> scorer \<Rightarrow> weekly_rankings \<Rightarrow> roster_player list \<Rightarrow> directory \<Rightarrow> roster_settings
   \<Rightarrow> roster_player list \<Rightarrow> analysis" where
  "analyze_weekly_rankings tsr ratio wr user_players sleeper_players rs all_league_players =
     (let offense = user_offensive_players tsr ratio wr user_players sleeper_players;
          dsts = placed_defenses wr user_players sleeper_players all_league_players;
          ks = placed_kickers wr user_players sleeper_players all_league_players;
          ds = sort_key e_rank (on_roster_entries dsts);
          kk = sort_key e_rank (on_roster_entries ks);
          wd = sort_key e_rank (waiver_entries dsts);
          wk = sort_key e_rank (waiver_entries ks);
          wd5 = take 5 (sort_key e_rank (ds @ wd));
          wk5 = take 5 (sort_key e_rank (kk @ wk));
          a = allocate rs offense;
          ordered = sorted_starters (starters_by_pos (cur_starters a)) (\<lambda>pos. 0)
                      (position_order rs) []
      in \<lparr> starters = ordered @ best_available ''K'' (rs_get rs ''K'') wk5 kk
                        @ best_available ''DEF'' (rs_get rs ''DEF'') wd5 ds,
           bench = cur_bench a,
           defenses = ds, kickers = kk, waiver_defenses = wd5, waiver_kickers = wk5 \<rparr>)"

section \<open>IdentityResolver: \<^verbatim>\<open>match_players\<close>\<close>

text \<open>The fields of the \<^verbatim>\<open>Player\<close> dataclass that the matching reads and writes.\<close>

record fp_player =
  fp_name :: string
  fp_team :: string
  fp_position :: string
  fp_sleeper_id :: "string option"

text \<open>
  A Python dictionary from names to ids, in insertion order: assigning to a key that is
  present keeps its place, a new key goes to the end.
\<close>

type_synonym name_map = "(string \<times> string) list"

definition add_normalized :: "string \<Rightarrow> sleeper_player \<Rightarrow> name_map \<Rightarrow> name_map" where
  "add_normalized pid sp m =
     (let m = (if sp_full_name sp \<noteq> []
               then AList.update (normalize_str (sp_full_name sp)) pid m else m);
          m = (if sp_search_full_name sp \<noteq> []
               then AList.update (normalize_str (sp_search_full_name sp)) pid m else m)
      in if sp_first_name sp \<noteq> [] \<and> sp_last_name sp \<noteq> []
         then AList.update (normalize_str (sp_first_name sp @ '' '' @ sp_last_name sp)) pid m
         else m)"

definition sleeper_names :: "directory \<Rightarrow> name_map" where
  "sleeper_names sleeper_players =
     fold (\<lambda>(pid, sp) m. if sp_full_name sp \<noteq> [] then AList.update (sp_full_name sp) pid m else m)
       sleeper_players []"

definition normalized_map :: "directory \<Rightarrow> name_map" where
  "normalized_map sleeper_players =
     fold (\<lambda>(pid, sp) m. add_normalized pid sp m) sleeper_players []"

definition position_map :: "directory \<Rightarrow> (string \<times> name_map) list" where
  "position_map sleeper_players =
     fold (\<lambda>(pid, sp) pm.
        let pos = upper (sp_position sp)
        in if pos \<noteq> []
           then AList.update pos
                  (add_normalized pid sp (case map_of pm pos of None \<Rightarrow> [] | Some m \<Rightarrow> m)) pm
           else pm)
       sleeper_players []"

text \<open>
  Step 3, the fuzzy step: \<open>candidates_map\<close> is the map of the player's position, or the map
  of all names when that one is missing or empty.
\<close>

definition candidates_map :: "directory \<Rightarrow> string \<Rightarrow> name_map" where
  "candidates_map sleeper_players pos =
     (case map_of (position_map sleeper_players) pos of
        None \<Rightarrow> normalized_map sleeper_players
      | Some m \<Rightarrow> if m = [] then normalized_map sleeper_players else m)"

definition fuzzy_step :: "scorer \<Rightarrow> scorer \<Rightarrow> name_map \<Rightarrow> string \<Rightarrow> string option" where
  "fuzzy_step tsr ratio cmap normalized_fp =
     (case extractOne tsr normalized_fp (map fst cmap) of
        None \<Rightarrow> None
      | Some (chosen_key, score) \<Rightarrow>
          if 95 \<le> score
          then (let fp_first = first_token (lower normalized_fp);
                    sleeper_first = first_token (lower chosen_key)
                in if 0 < length fp_first \<and> 0 < length sleeper_first
                   then (if 85 \<le> ratio fp_first sleeper_first then map_of cmap chosen_key
                         else None)
                   else None)
          else None)"

text \<open>Step 4, the fallback on last name, team and position.\<close>

definition fallback_candidates :: "directory \<Rightarrow> fp_player \<Rightarrow> string list" where
  "fallback_candidates sleeper_players p =
     (let last_name = last (split_on_space (normalize_str (fp_name p)));
          tm = upper (fp_team p);
          pos = upper (fp_position p)
      in if last_name \<noteq> [] \<and> tm \<noteq> [] \<and> tm \<noteq> ''FA'' \<and> pos \<noteq> []
         then map fst (filter (\<lambda>(sp_id, sp).
                normalize_str (sp_last_name sp) = last_name \<and> upper (sp_team sp) = tm
                \<and> upper (sp_position sp) = pos) sleeper_players)
         else [])"

definition fallback_step :: "directory \<Rightarrow> fp_player \<Rightarrow> string option" where
  "fallback_step sleeper_players p =
     (case fallback_candidates sleeper_players p of
        [sp_id] \<Rightarrow> Some sp_id
      | _ \<Rightarrow> None)"

text \<open>The four steps for one player, the first success deciding.\<close>

definition match_player :: "scorer \<Rightarrow> scorer \<Rightarrow> directory \<Rightarrow> fp_player \<Rightarrow> string option" where
  "match_player tsr ratio sleeper_players p =
     (case map_of (sleeper_names sleeper_players) (fp_name p) of
        Some pid \<Rightarrow> Some pid
      | None \<Rightarrow>
          (let normalized_fp = normalize_str (fp_name p)
           in case map_of (normalized_map sleeper_players) normalized_fp of
                Some pid \<Rightarrow> Some pid
              | None \<Rightarrow>
                  (case fuzzy_step tsr ratio (candidates_map sleeper_players (fp_position p))
                          normalized_fp of
                     Some pid \<Rightarrow> Some pid
                   | None \<Rightarrow> fallback_step sleeper_players p)))"

definition match_players :: "scorer \<Rightarrow> scorer \<Rightarrow> directory \<Rightarrow> fp_player list \<Rightarrow> fp_player list" where
  "match_players tsr ratio sleeper_players players =
     map (\<lambda>p. case match_player tsr ratio sleeper_players p of
                None \<Rightarrow> p
              | Some pid \<Rightarrow> p \<lparr> fp_sleeper_id := Some pid \<rparr>) players"

section \<open>OptimalLineupComputer: the upgrade pairs\<close>

text \<open>
  First the last stage of \<^verbatim>\<open>analyze_optimal_lineup_with_free_agents\<close>, from the two
  lineups \<^verbatim>\<open>current_starters\<close> and \<^verbatim>\<open>optimal_starters\<close> to the list
  \<^verbatim>\<open>free_agent_upgrades\<close>; then the function as a whole. The key \<^verbatim>\<open>replaces_player\<close>
  that the loop writes into the added player is not modelled.
\<close>

record upgrade =
  up_position :: string
  up_drop :: player
  up_add :: player
  up_improvement :: int

definition has_id :: "player \<Rightarrow> bool" where
  \<comment> \<open>\<^verbatim>\<open>if s.get('sleeper_id')\<close>\<close>
  "has_id s = (case sleeper_id s of None \<Rightarrow> False | Some i \<Rightarrow> i \<noteq> [])"

definition has_flex :: "player \<Rightarrow> bool" where
  \<comment> \<open>\<^verbatim>\<open>p.get('flex_slot')\<close> as a condition\<close>
  "has_flex p = (case flex_slot p of None \<Rightarrow> False | Some f \<Rightarrow> f \<noteq> [])"

definition flex_eligible :: "player \<Rightarrow> bool" where
  "flex_eligible p = (position p \<in> set [''RB'', ''WR'', ''TE''])"

definition can_replace :: "player \<Rightarrow> player \<Rightarrow> bool" where
  "can_replace added_player dropped_player =
     (if position added_player = position dropped_player then True
      else if has_flex added_player \<and> has_flex dropped_player
      then flex_eligible added_player \<and> flex_eligible dropped_player
      else if has_flex added_player \<or> has_flex dropped_player
      then flex_eligible added_player \<and> flex_eligible dropped_player
      else False)"

text \<open>The inner loop: \<^verbatim>\<open>best_match\<close> and \<^verbatim>\<open>best_improvement\<close> over the dropped players.\<close>

fun best_drop :: "player \<Rightarrow> player list \<Rightarrow> player option \<times> int \<Rightarrow> player option \<times> int" where
  "best_drop added_player [] best = best"
| "best_drop added_player (dropped_player # rest) best =
     (if position dropped_player \<in> set [''DEF'', ''K'']
      then best_drop added_player rest best
      else if can_replace added_player dropped_player
      then (let improvement = rank dropped_player - rank added_player
            in if snd best < improvement
               then best_drop added_player rest (Some dropped_player, improvement)
               else best_drop added_player rest best)
      else best_drop added_player rest best)"

fun pair_upgrades :: "player list \<Rightarrow> player list \<Rightarrow> upgrade list" where
  "pair_upgrades [] dropped_players = []"
| "pair_upgrades (added_player # rest) dropped_players =
     (if is_free_agent added_player
      then (case best_drop added_player dropped_players (None, 0) of
              (Some best_match, best_improvement) \<Rightarrow>
                if 0 < best_improvement
                then \<lparr> up_position = position added_player, up_drop = best_match,
                       up_add = added_player, up_improvement = best_improvement \<rparr>
                     # pair_upgrades rest (remove1 best_match dropped_players)
                else pair_upgrades rest dropped_players
            | (None, best_improvement) \<Rightarrow> pair_upgrades rest dropped_players)
      else pair_upgrades rest dropped_players)"

definition compare_lineups :: "player list \<Rightarrow> player list \<Rightarrow> upgrade list" where
  "compare_lineups current_starters optimal_starters =
     (let current_player_ids = set (map sleeper_id (filter has_id current_starters));
          optimal_player_ids = set (map sleeper_id (filter has_id optimal_starters));
          added_players = filter (\<lambda>p. sleeper_id p \<notin> current_player_ids) optimal_starters;
          dropped_players = filter (\<lambda>p. sleeper_id p \<notin> optimal_player_ids) current_starters
      in pair_upgrades added_players dropped_players)"

text \<open>
  The pool of the roster and the free agents. A ranked row is looked up in the whole
  directory, among the entries of its base position: the first one whose normalised name
  is equal, or similar at the thresholds 95 and 85.
\<close>

definition directory_match :: "scorer \<Rightarrow> directory \<Rightarrow> string \<Rightarrow> string \<Rightarrow> string option" where
  "directory_match ratio sleeper_players base_pos normalized_fp =
     map_option fst
       (find (\<lambda>(sid, sp).
           sp_position sp = base_pos
           \<and> (normalized_fp = normalize_str (sp_full_name sp)
              \<or> (95 \<le> ratio normalized_fp (normalize_str (sp_full_name sp))
                 \<and> 85 \<le> ratio (first_token normalized_fp)
                            (first_token (normalize_str (sp_full_name sp))))))
         sleeper_players)"

definition available_player ::
  "scorer \<Rightarrow> directory \<Rightarrow> roster_player list \<Rightarrow> string set \<Rightarrow> nat \<times> ranking \<Rightarrow> player list" where
  "available_player ratio sleeper_players user_players owned_player_ids ir =
     (let rank_idx = fst ir;
          player_name = strip (PLAYER_NAME (snd ir));
          pwr = strip (POS (snd ir))
      in if player_name = [] \<or> pwr = [] then []
         else if base_position pwr \<in> set [''DEF'', ''K''] then []
         else (case directory_match ratio sleeper_players (base_position pwr)
                      (normalize_str player_name) of
                 None \<Rightarrow> []
               | Some sid \<Rightarrow>
                   (case map_of sleeper_players sid of
                      None \<Rightarrow> []
                    | Some sp \<Rightarrow>
                        (let on_r = list_ex (\<lambda>up. player_id up = sid) user_players;
                             is_fa = (sid \<notin> owned_player_ids \<and> \<not> on_r)
                         in if sid \<noteq> [] \<and> (on_r \<or> is_fa)
                            then [\<lparr> name = player_name, position = base_position pwr,
                                    position_with_rank = Some pwr, rank = int rank_idx + 1,
                                    team = sp_team sp, sleeper_id = Some sid,
                                    is_on_roster = on_r, is_free_agent = is_fa,
                                    flex_slot = None, is_waiver_wire = False \<rparr>]
                            else []))))"

definition all_available_players ::
  "scorer \<Rightarrow> weekly_rankings \<Rightarrow> roster_player list \<Rightarrow> directory \<Rightarrow> roster_player list
   \<Rightarrow> player list" where
  "all_available_players ratio wr user_players sleeper_players all_league_players =
     sort_key rank
       (concat (map (available_player ratio sleeper_players user_players
                       (set (map player_id all_league_players)))
                  (enumerate 0 (OP wr))))"

record optimal_analysis =
  optimal_starters :: "player list"
  free_agent_upgrades :: "upgrade list"
  available_free_agents :: "player list"

text \<open>
  The optimal lineup is allocated as the current one is, on copies of the players; the
  defence and the kicker are those of the current analysis.
\<close>

definition analyze_optimal_lineup_with_free_agents ::
  "scorer \<Rightarrow> scorer \<Rightarrow> weekly_rankings \<Rightarrow> roster_player list \<Rightarrow> directory \<Rightarrow> roster_settings
   \<Rightarrow> roster_player list \<Rightarrow> optimal_analysis" where
  "analyze_optimal_lineup_with_free_agents tsr ratio wr user_players sleeper_players rs
     all_league_players =
     (let current_starters =
            starters (analyze_weekly_rankings tsr ratio wr user_players sleeper_players rs
                        all_league_players);
          pool = all_available_players ratio wr user_players sleeper_players all_league_players;
          optimal = cur_starters (allocate rs pool)
                    @ filter (\<lambda>s. position s \<in> set [''DEF'', ''K'']) current_starters
      in \<lparr> optimal_starters = optimal,
           free_agent_upgrades = compare_lineups current_starters optimal,
           available_free_agents = take 10 (filter is_free_agent pool) \<rparr>)"

section \<open>RestOfSeasonRecommender\<close>

record ros_ranking =
  rr_rank :: int
  rr_name :: string
  rr_team :: string
  rr_position :: string
  rr_position_with_rank :: string

record ros_entry =
  ros_player_id :: string
  ros_name :: string
  ros_position :: string
  ros_position_with_rank :: string
  ros_team :: string
  ros_rank :: int

record recommendation =
  rec_drop :: ros_entry
  rec_add :: ros_entry
  improvement :: int

definition ros_entry_of :: "string \<Rightarrow> ros_ranking \<Rightarrow> ros_entry" where
  "ros_entry_of pid r =
     \<lparr> ros_player_id = pid, ros_name = rr_name r, ros_position = rr_position r,
       ros_position_with_rank = rr_position_with_rank r, ros_team = rr_team r,
       ros_rank = rr_rank r \<rparr>"

text \<open>The threshold test shared by the two matching loops.\<close>

definition names_match :: "scorer \<Rightarrow> string \<Rightarrow> string \<Rightarrow> bool" where
  "names_match ratio normalized_sleeper_name normalized_ros_name =
     (95 \<le> ratio normalized_sleeper_name normalized_ros_name
      \<and> 85 \<le> ratio (first_token normalized_sleeper_name) (first_token normalized_ros_name))"

fun best_ros_match ::
  "scorer \<Rightarrow> string \<Rightarrow> string \<Rightarrow> ros_ranking list \<Rightarrow> ros_ranking option \<times> nat
   \<Rightarrow> ros_ranking option \<times> nat" where
  "best_ros_match ratio sleeper_position normalized_sleeper_name [] best = best"
| "best_ros_match ratio sleeper_position normalized_sleeper_name (ros_player # rest) best =
     (if rr_position ros_player \<noteq> sleeper_position
      then best_ros_match ratio sleeper_position normalized_sleeper_name rest best
      else (let normalized_ros_name = normalize_str (rr_name ros_player);
                score = ratio normalized_sleeper_name normalized_ros_name
            in if names_match ratio normalized_sleeper_name normalized_ros_name \<and> snd best < score
               then best_ros_match ratio sleeper_position normalized_sleeper_name rest
                      (Some ros_player, score)
               else best_ros_match ratio sleeper_position normalized_sleeper_name rest best))"

definition user_ros_player ::
  "scorer \<Rightarrow> directory \<Rightarrow> ros_ranking list \<Rightarrow> roster_player \<Rightarrow> ros_entry list" where
  "user_ros_player ratio sleeper_players ros_rankings user_player =
     (case map_of sleeper_players (player_id user_player) of
        None \<Rightarrow> []
      | Some sp \<Rightarrow>
          (let sleeper_name = strip (sp_full_name sp);
               sleeper_position = strip (sp_position sp)
           in if sleeper_position \<in> set [''DEF'', ''K''] then []
              else (case fst (best_ros_match ratio sleeper_position (normalize_str sleeper_name)
                               ros_rankings (None, 0)) of
                      None \<Rightarrow> []
                    | Some best_match \<Rightarrow> [ros_entry_of (player_id user_player) best_match])))"

definition found_sleeper_id :: "scorer \<Rightarrow> directory \<Rightarrow> ros_ranking \<Rightarrow> string option" where
  "found_sleeper_id ratio sleeper_players ros_player =
     map_option fst
       (find (\<lambda>(sid, sp).
           sp_position sp = rr_position ros_player
           \<and> names_match ratio (normalize_str (strip (sp_full_name sp)))
                (normalize_str (rr_name ros_player)))
         sleeper_players)"

definition free_agent_entry :: "scorer \<Rightarrow> directory \<Rightarrow> string set \<Rightarrow> ros_ranking \<Rightarrow> ros_entry list" where
  "free_agent_entry ratio sleeper_players owned_player_ids ros_player =
     (if rr_position ros_player \<in> set [''DEF'', ''K''] then []
      else (case found_sleeper_id ratio sleeper_players ros_player of
              None \<Rightarrow> []
            | Some sid \<Rightarrow>
                if sid \<noteq> [] \<and> sid \<notin> owned_player_ids then [ros_entry_of sid ros_player]
                else []))"

text \<open>
  \<^verbatim>\<open>max(xs, key=f)\<close> and \<^verbatim>\<open>min(xs, key=f)\<close> return the first element among equals;
  \<^verbatim>\<open>sorted(xs, key=f, reverse=True)\<close> keeps the order of equal keys.
\<close>

fun max_by_rank :: "ros_entry \<Rightarrow> ros_entry list \<Rightarrow> ros_entry" where
  "max_by_rank b [] = b"
| "max_by_rank b (x # xs) = max_by_rank (if ros_rank b < ros_rank x then x else b) xs"

fun min_by_rank :: "ros_entry \<Rightarrow> ros_entry list \<Rightarrow> ros_entry" where
  "min_by_rank b [] = b"
| "min_by_rank b (x # xs) = min_by_rank (if ros_rank x < ros_rank b then x else b) xs"

definition sorted_reverse :: "ros_entry list \<Rightarrow> ros_entry list" where
  "sorted_reverse xs = rev (sort_key ros_rank (rev xs))"

definition position_recommendation ::
  "ros_entry list \<Rightarrow> ros_entry list \<Rightarrow> string \<Rightarrow> recommendation list" where
  "position_recommendation user_ros_players free_agents pos =
     (case (filter (\<lambda>p. ros_position p = pos) user_ros_players,
            filter (\<lambda>p. ros_position p = pos) free_agents) of
        (u # us, f # fs) \<Rightarrow>
          (let worst_user_player = max_by_rank u us;
               best_free_agent = min_by_rank f fs
           in if ros_rank best_free_agent < ros_rank worst_user_player
              then [\<lparr> rec_drop = worst_user_player, rec_add = best_free_agent,
                      improvement = ros_rank worst_user_player - ros_rank best_free_agent \<rparr>]
              else [])
      | _ \<Rightarrow> [])"

text \<open>
  The loop over \<^verbatim>\<open>range(min(len(sorted_free_agents), len(sorted_user_players)))\<close> with its
  \<^verbatim>\<open>break\<close>; the pair holds \<^verbatim>\<open>best_adds\<close> and \<^verbatim>\<open>worst_drops\<close>.
\<close>

fun beneficial_swaps ::
  "ros_entry list \<Rightarrow> ros_entry list \<Rightarrow> ros_entry list \<times> ros_entry list
   \<Rightarrow> ros_entry list \<times> ros_entry list" where
  "beneficial_swaps (free_agent # fs) (user_player # us) acc =
     (if ros_rank free_agent < ros_rank user_player
      then beneficial_swaps fs us (fst acc @ [free_agent], snd acc @ [user_player])
      else acc)"
| "beneficial_swaps fs us acc = acc"

record ros_analysis =
  ros_user_players :: "ros_entry list"
  ros_free_agents :: "ros_entry list"
  position_recommendations :: "string \<Rightarrow> recommendation list"
  best_adds :: "ros_entry list"
  worst_drops :: "ros_entry list"

definition analyze_ros_recommendations ::
  "scorer \<Rightarrow> roster_player list \<Rightarrow> directory \<Rightarrow> roster_player list \<Rightarrow> ros_ranking list
   \<Rightarrow> ros_analysis" where
  "analyze_ros_recommendations ratio user_players_list sleeper_players all_league_players ros_rankings =
     (let user_ros_players =
            sort_key ros_rank
              (concat (map (user_ros_player ratio sleeper_players ros_rankings) user_players_list));
          owned_player_ids = set (map player_id all_league_players);
          fas = sort_key ros_rank
                  (concat (map (free_agent_entry ratio sleeper_players owned_player_ids) ros_rankings));
          swaps = (if user_ros_players \<noteq> [] \<and> fas \<noteq> []
                   then beneficial_swaps (sort_key ros_rank fas) (sorted_reverse user_ros_players)
                          ([], [])
                   else ([], []))
      in \<lparr> ros_user_players = user_ros_players, ros_free_agents = fas,
           position_recommendations =
             (\<lambda>pos. if pos \<in> set [''QB'', ''RB'', ''WR'', ''TE'']
                     then position_recommendation user_ros_players fas pos else []),
           best_adds = fst swaps, worst_drops = snd swaps \<rparr>)"

section \<open>The flexible-slot phase as the specification words it\<close>

text \<open>
  For comparison with \<open>second_pass\<close>: each fill looks at the bench as it is then, filters
  it to the positions the slot accepts, sorts by rank, and moves the first player to the
  starters.
\<close>

definition eligible_positions :: "string \<Rightarrow> string list" where
  "eligible_positions slot =
     (if slot = ''SUPER_FLEX'' then [''QB'', ''RB'', ''WR'', ''TE'']
      else if slot = ''FLEX'' \<or> slot = ''WRRBTE_FLEX'' then [''RB'', ''WR'', ''TE'']
      else if slot = ''WRRB_FLEX'' then [''RB'', ''WR'']
      else [])"

definition spec_fill :: "string \<Rightarrow> player list \<times> player list \<Rightarrow> player list \<times> player list" where
  "spec_fill slot sb =
     (case eligible_list (eligible_positions slot) (snd sb) of
        [] \<Rightarrow> sb
      | best # _ \<Rightarrow> (fst sb @ [best \<lparr> flex_slot := Some slot \<rparr>], remove1 best (snd sb)))"

definition spec_flex_phase ::
  "(string \<rightharpoonup> nat) \<Rightarrow> player list \<times> player list \<Rightarrow> player list \<times> player list" where
  "spec_flex_phase req sb =
     fold (\<lambda>slot. spec_fill slot ^^ capacity req slot)
       [''SUPER_FLEX'', ''FLEX'', ''WRRBTE_FLEX'', ''WRRB_FLEX''] sb"



section \<open>Scenarios\<close>

text \<open>Concrete inputs, at which the theorems below are evaluated.\<close>

definition dir_entry :: "string \<Rightarrow> string \<Rightarrow> string \<Rightarrow> string \<Rightarrow> sleeper_player" where
  "dir_entry first_nm last_nm tm pos =
     \<lparr> sp_full_name = first_nm @ '' '' @ last_nm, sp_search_full_name = [],
       sp_first_name = first_nm, sp_last_name = last_nm, sp_team = tm, sp_position = pos \<rparr>"

definition scenario_directory :: directory where
  "scenario_directory =
     [(''1'', dir_entry ''Josh'' ''Allen'' ''BUF'' ''QB''),
      (''2'', dir_entry ''Saquon'' ''Barkley'' ''PHI'' ''RB''),
      (''3'', dir_entry ''Tom'' ''Old'' ''KC'' ''RB''),
      (''4'', dir_entry ''Sam'' ''New'' ''KC'' ''RB''),
      (''5'', dir_entry ''John'' ''Smith'' ''DEN'' ''RB''),
      (''6'', dir_entry ''Jim'' ''Smith'' ''DEN'' ''RB''),
      (''7'', dir_entry ''Marquise'' ''Brown'' ''KC'' ''WR''),
      (''8'', dir_entry ''Harrison'' ''Butker'' ''KC'' ''K'')]"

text \<open>A scorer that knows equal strings only, and two constant ones at the thresholds.\<close>

definition exact_ratio :: scorer where
  "exact_ratio a b = (if a = b then 100 else 0)"

definition on_roster :: "string list \<Rightarrow> roster_player list" where
  "on_roster ids = map (\<lambda>i. \<lparr> player_id = i \<rparr>) ids"

definition op_rankings :: "(string \<times> string) list \<Rightarrow> weekly_rankings" where
  "op_rankings rows =
     \<lparr> OP = map (\<lambda>(n, p). \<lparr> PLAYER_NAME = n, POS = p, TEAM = [] \<rparr>) rows, DST = [], K = [] \<rparr>"

text \<open>Two ranked rows that both name the roster's Josh Allen.\<close>

definition duplicate_rankings :: weekly_rankings where
  "duplicate_rankings = op_rankings [(''Josh Allen'', ''QB1''), (''Josh Allen Jr.'', ''QB2'')]"


text \<open>A ranking of one kicker and one defence, none of them on a roster.\<close>

definition kicker_rankings :: weekly_rankings where
  "kicker_rankings =
     \<lparr> OP = map (\<lambda>(n, p). \<lparr> PLAYER_NAME = n, POS = p, TEAM = [] \<rparr>)
              [(''Josh Allen'', ''QB1''), (''Saquon Barkley'', ''RB1''), (''Tom Old'', ''RB2'')],
       DST = [\<lparr> PLAYER_NAME = ''Philadelphia Eagles'', POS = ''DST1'', TEAM = ''PHI'' \<rparr>],
       K = [\<lparr> PLAYER_NAME = ''Jake Elliott'', POS = ''K1'', TEAM = ''PHI'' \<rparr>,
            \<lparr> PLAYER_NAME = ''Harrison Butker'', POS = ''K2'', TEAM = ''KC'' \<rparr>] \<rparr>"

text \<open>Rest-of-season rankings in which the free agent Sam New outranks Tom Old.\<close>

definition scenario_ros :: "ros_ranking list" where
  "scenario_ros =
     [\<lparr> rr_rank = 10, rr_name = ''Sam New'', rr_team = ''KC'', rr_position = ''RB'',
        rr_position_with_rank = ''RB5'' \<rparr>,
      \<lparr> rr_rank = 20, rr_name = ''Tom Old'', rr_team = ''KC'', rr_position = ''RB'',
        rr_position_with_rank = ''RB9'' \<rparr>]"

text \<open>Two Smiths at one position of one team, and a player the directory knows by another first name.\<close>

definition hollywood_smith :: fp_player where
  "hollywood_smith =
     \<lparr> fp_name = ''Hollywood Smith'', fp_team = ''DEN'', fp_position = ''RB'',
       fp_sleeper_id = None \<rparr>"

definition hollywood_brown :: fp_player where
  "hollywood_brown =
     \<lparr> fp_name = ''Hollywood Brown'', fp_team = ''KC'', fp_position = ''WR'',
       fp_sleeper_id = None \<rparr>"



text \<open>Weekly rankings in which the free agent Sam New outranks the roster's Tom Old.\<close>

definition upgrade_rankings :: weekly_rankings where
  "upgrade_rankings = op_rankings [(''Sam New'', ''RB1''), (''Tom Old'', ''RB2'')]"

section \<open>Invariants of the allocation\<close>


text \<open>No starter ranks behind a bench player of its own position.\<close>

definition ranks_ordered :: "player list \<times> player list \<Rightarrow> bool" where
  "ranks_ordered sb =
     (\<forall>s \<in> set (fst sb). \<forall>b \<in> set (snd sb). position s = position b \<longrightarrow> rank s \<le> rank b)"

section \<open>Properties of the name normaliser\<close>




section \<open>Properties of the recommendations\<close>

lemma best_drop_improvement:
  "best_drop a ds best = (Some d, i) \<Longrightarrow>
   (\<And>d0. fst best = Some d0 \<Longrightarrow> snd best = rank d0 - rank a) \<Longrightarrow>
   i = rank d - rank a"
proof (induction ds arbitrary: best)
  case Nil
  then show ?case by simp
next
  case (Cons x ds)
  show ?case
  proof (cases "position x \<notin> set [''DEF'', ''K''] \<and> can_replace a x \<and> snd best < rank x - rank a")
    case True
    then have "best_drop a ds (Some x, rank x - rank a) = (Some d, i)"
      using Cons.prems(1) by (simp add: Let_def)
    then show ?thesis
      by (rule Cons.IH) simp
  next
    case False
    then have "best_drop a ds best = (Some d, i)"
      using Cons.prems(1) by (auto simp: Let_def split: if_splits)
    then show ?thesis
      using Cons.prems(2) by (rule Cons.IH)
  qed
qed

lemma pair_upgrades_improvement:
  "u \<in> set (pair_upgrades added dropped) \<Longrightarrow>
   0 < up_improvement u \<and> up_improvement u = rank (up_drop u) - rank (up_add u)"
proof (induction added arbitrary: dropped)
  case Nil
  then show ?case by simp
next
  case (Cons a added)
  obtain bm bi where b: "best_drop a dropped (None, 0) = (bm, bi)"
    by (cases "best_drop a dropped (None, 0)")
  show ?case
  proof (cases "is_free_agent a \<and> bm \<noteq> None \<and> 0 < bi")
    case True
    then obtain d where d: "bm = Some d" by auto
    have bi: "bi = rank d - rank a"
      using b d best_drop_improvement [of a dropped "(None, 0)" d bi] by simp
    have "u = \<lparr> up_position = position a, up_drop = d, up_add = a, up_improvement = bi \<rparr>
          \<or> u \<in> set (pair_upgrades added (remove1 d dropped))"
      using Cons.prems True b d by simp
    then show ?thesis
      using True bi Cons.IH by auto
  next
    case False
    then have "u \<in> set (pair_upgrades added dropped)"
      using Cons.prems b by (cases bm) (auto split: if_splits)
    then show ?thesis
      by (rule Cons.IH)
  qed
qed

lemma compare_lineups_improvement:
  "u \<in> set (compare_lineups cs os) \<Longrightarrow>
   0 < up_improvement u \<and> up_improvement u = rank (up_drop u) - rank (up_add u)"
  unfolding compare_lineups_def Let_def by (rule pair_upgrades_improvement)

lemma position_recommendation_improvement:
  "r \<in> set (position_recommendation us fs pos) \<Longrightarrow>
   0 < improvement r \<and> improvement r = ros_rank (rec_drop r) - ros_rank (rec_add r)"
  by (auto simp: position_recommendation_def Let_def split: list.splits if_splits)

text \<open>
  C3: every upgrade in \<^verbatim>\<open>free_agent_upgrades\<close> of the optimal-lineup analysis and every
  recommendation in \<^verbatim>\<open>position_recommendations\<close> of the rest-of-season analysis has a
  strictly positive improvement, which is the rank of the dropped player minus the rank of
  the added one.
\<close>

theorem upgrade_improvement_positive:
  "(\<forall>u \<in> set (free_agent_upgrades
                  (analyze_optimal_lineup_with_free_agents tsr ratio wr ups sps rs lg)).
      0 < up_improvement u \<and> up_improvement u = rank (up_drop u) - rank (up_add u))
   \<and> (\<forall>r \<in> set (position_recommendations
                    (analyze_ros_recommendations ratio ul sps lg rr) pos).
        0 < improvement r \<and> improvement r = ros_rank (rec_drop r) - ros_rank (rec_add r))"
proof -
  have "0 < up_improvement u \<and> up_improvement u = rank (up_drop u) - rank (up_add u)"
    if "u \<in> set (free_agent_upgrades
                    (analyze_optimal_lineup_with_free_agents tsr ratio wr ups sps rs lg))" for u
  proof -
    have "\<exists>cs os. free_agent_upgrades
                     (analyze_optimal_lineup_with_free_agents tsr ratio wr ups sps rs lg)
                   = compare_lineups cs os"
      unfolding analyze_optimal_lineup_with_free_agents_def Let_def
      by (simp only: optimal_analysis.select_convs) blast
    then show ?thesis
      using that compare_lineups_improvement by metis
  qed
  moreover
  have "0 < improvement r \<and> improvement r = ros_rank (rec_drop r) - ros_rank (rec_add r)"
    if "r \<in> set (position_recommendations (analyze_ros_recommendations ratio ul sps lg rr) pos)"
    for r
    using that
    by (auto simp: analyze_ros_recommendations_def Let_def
             dest: position_recommendation_improvement split: if_splits)
  ultimately show ?thesis
    by blast
qed

lemma beneficial_swaps_takeWhile:
  "beneficial_swaps fs us acc =
     (fst acc @ map fst (takeWhile (\<lambda>(f, u). ros_rank f < ros_rank u) (zip fs us)),
      snd acc @ map snd (takeWhile (\<lambda>(f, u). ros_rank f < ros_rank u) (zip fs us)))"
  by (induction fs us acc rule: beneficial_swaps.induct) auto

lemma sorted_sorted_reverse: "sorted (rev (map ros_rank (sorted_reverse xs)))"
  by (simp add: sorted_reverse_def flip: rev_map)

text \<open>
  C8: \<^verbatim>\<open>best_adds\<close> and \<^verbatim>\<open>worst_drops\<close> are the two sides of the longest run of strictly
  improving pairs at the start of the free agents by ascending rank zipped with the roster
  players by descending rank. So both have one length, the pair at each index is the free
  agent and the roster player of that index, and the free agent ranks strictly better.
\<close>

theorem best_adds_pair_worst_drops:
  "let a = analyze_ros_recommendations ratio ul sps lg rr;
       fas = ros_free_agents a;
       us = sorted_reverse (ros_user_players a);
       pairs = takeWhile (\<lambda>(f, u). ros_rank f < ros_rank u) (zip fas us)
   in best_adds a = map fst pairs \<and> worst_drops a = map snd pairs
      \<and> sorted (map ros_rank fas) \<and> sorted (rev (map ros_rank us))
      \<and> length (best_adds a) = length (worst_drops a)
      \<and> (\<forall>i < length (best_adds a).
            best_adds a ! i = fas ! i \<and> worst_drops a ! i = us ! i
            \<and> ros_rank (best_adds a ! i) < ros_rank (worst_drops a ! i))"
proof -
  define a where "a = analyze_ros_recommendations ratio ul sps lg rr"
  define fas where "fas = ros_free_agents a"
  define us where "us = sorted_reverse (ros_user_players a)"
  define pairs where "pairs = takeWhile (\<lambda>(f, u). ros_rank f < ros_rank u) (zip fas us)"
  have sf: "sorted (map ros_rank fas)"
    by (simp add: fas_def a_def analyze_ros_recommendations_def Let_def)
  have su: "sorted (rev (map ros_rank us))"
    unfolding us_def by (rule sorted_sorted_reverse)
  have id: "sort_key ros_rank fas = fas"
    using sf by (rule sort_key_id_if_sorted)
  have "length us = length (ros_user_players a)"
    by (simp add: us_def sorted_reverse_def)
  then have e: "us = [] \<longleftrightarrow> ros_user_players a = []"
    by (metis length_0_conv)
  have swaps: "(best_adds a, worst_drops a) = (map fst pairs, map snd pairs)"
  proof (cases "ros_user_players a \<noteq> [] \<and> fas \<noteq> []")
    case True
    have "(best_adds a, worst_drops a)
          = beneficial_swaps (sort_key ros_rank fas) us ([], [])"
      using True
      by (simp add: fas_def us_def a_def analyze_ros_recommendations_def Let_def)
    then show ?thesis
      by (simp add: id beneficial_swaps_takeWhile pairs_def)
  next
    case False
    then have "fas = [] \<or> us = []"
      using e by blast
    then have z: "zip fas us = []"
      by auto
    have "(best_adds a, worst_drops a) = ([], [])"
      using False
      by (auto simp: fas_def a_def analyze_ros_recommendations_def Let_def)
    then show ?thesis
      unfolding pairs_def z by simp
  qed
  have pre: "\<forall>i < length pairs. pairs ! i = zip fas us ! i
               \<and> ros_rank (fst (pairs ! i)) < ros_rank (snd (pairs ! i))"
  proof (intro allI impI conjI)
    fix i assume i: "i < length pairs"
    show "pairs ! i = zip fas us ! i"
      using i unfolding pairs_def by (simp add: takeWhile_nth)
    have "pairs ! i \<in> set pairs"
      using i by simp
    then show "ros_rank (fst (pairs ! i)) < ros_rank (snd (pairs ! i))"
      unfolding pairs_def by (auto dest: set_takeWhileD)
  qed
  have len: "length pairs \<le> length (zip fas us)"
    unfolding pairs_def by (rule length_takeWhile_le)
  have "\<forall>i < length (best_adds a).
            best_adds a ! i = fas ! i \<and> worst_drops a ! i = us ! i
            \<and> ros_rank (best_adds a ! i) < ros_rank (worst_drops a ! i)"
  proof (intro allI impI)
    fix i assume "i < length (best_adds a)"
    then have i: "i < length pairs"
      using swaps by simp
    then have iz: "i < length fas" "i < length us"
      using len by simp_all
    have "pairs ! i = (fas ! i, us ! i)"
      using pre i iz by simp
    moreover have "ros_rank (fst (pairs ! i)) < ros_rank (snd (pairs ! i))"
      using pre i by blast
    ultimately show "best_adds a ! i = fas ! i \<and> worst_drops a ! i = us ! i
            \<and> ros_rank (best_adds a ! i) < ros_rank (worst_drops a ! i)"
      using swaps i by simp
  qed
  then show ?thesis
    using swaps sf su
    unfolding Let_def a_def [symmetric] fas_def [symmetric] us_def [symmetric]
      pairs_def [symmetric]
    by auto
qed

text \<open>
  The theorem of C3 at weekly rankings in which the free agent of rank 1 replaces the
  roster's running back of rank 2, and at rest-of-season rankings of ranks 10 and 20.
\<close>

theorem upgrade_improvement_positive_witness:
  "(let ups = free_agent_upgrades
                (analyze_optimal_lineup_with_free_agents exact_ratio exact_ratio
                   upgrade_rankings (on_roster [''3'']) scenario_directory [(''RB'', 1)]
                   (on_roster [''3'', ''1'']))
    in length ups = 1 \<and> hd ups \<in> set ups \<and> 0 < up_improvement (hd ups)
       \<and> up_improvement (hd ups) = 1)
   \<and> (let recs = position_recommendations
                    (analyze_ros_recommendations exact_ratio (on_roster [''3''])
                       scenario_directory (on_roster [''3'', ''1'']) scenario_ros) ''RB''
       in length recs = 1 \<and> hd recs \<in> set recs \<and> 0 < improvement (hd recs)
          \<and> improvement (hd recs) = 10)"
proof -
  let ?ups = "free_agent_upgrades
                (analyze_optimal_lineup_with_free_agents exact_ratio exact_ratio
                   upgrade_rankings (on_roster [''3'']) scenario_directory [(''RB'', 1)]
                   (on_roster [''3'', ''1'']))"
  let ?recs = "position_recommendations
                 (analyze_ros_recommendations exact_ratio (on_roster [''3''])
                    scenario_directory (on_roster [''3'', ''1'']) scenario_ros) ''RB''"
  have u: "length ?ups = 1 \<and> up_improvement (hd ?ups) = 1"
    by code_simp
  have r: "length ?recs = 1 \<and> improvement (hd ?recs) = 10"
    by code_simp
  have hu: "hd ?ups \<in> set ?ups"
    using u by (metis hd_in_set length_0_conv zero_neq_one)
  have hr: "hd ?recs \<in> set ?recs"
    using r by (metis hd_in_set length_0_conv zero_neq_one)
  have "0 < up_improvement (hd ?ups)" "0 < improvement (hd ?recs)"
    using upgrade_improvement_positive
      [of exact_ratio exact_ratio upgrade_rankings "on_roster [''3'']" scenario_directory
          "[(''RB'', 1)]" "on_roster [''3'', ''1'']" "on_roster [''3'']" scenario_ros "''RB''"]
      hu hr
    by blast+
  then show ?thesis
    using u r hu hr unfolding Let_def by blast
qed

text \<open>
  The theorem of C8 at the same rankings: one pair, the free agent of rank 10 against the
  roster player of rank 20.
\<close>

theorem best_adds_pair_worst_drops_witness:
  "let a = analyze_ros_recommendations exact_ratio (on_roster [''3''])
             scenario_directory (on_roster [''3'', ''1'']) scenario_ros
   in map ros_rank (best_adds a) = [10] \<and> map ros_rank (worst_drops a) = [20]
      \<and> 0 < length (best_adds a)
      \<and> ros_rank (best_adds a ! 0) < ros_rank (worst_drops a ! 0)"
proof -
  let ?a = "analyze_ros_recommendations exact_ratio (on_roster [''3''])
             scenario_directory (on_roster [''3'', ''1'']) scenario_ros"
  have e: "map ros_rank (best_adds ?a) = [10] \<and> map ros_rank (worst_drops ?a) = [20]"
    by code_simp
  then have l: "0 < length (best_adds ?a)"
    by (metis length_map length_greater_0_conv list.distinct(1))
  have "\<forall>i < length (best_adds ?a). ros_rank (best_adds ?a ! i) < ros_rank (worst_drops ?a ! i)"
    using best_adds_pair_worst_drops
      [of exact_ratio "on_roster [''3'']" scenario_directory "on_roster [''3'', ''1'']"
          scenario_ros]
    unfolding Let_def by blast
  then have "ros_rank (best_adds ?a ! 0) < ros_rank (worst_drops ?a ! 0)"
    using l by blast
  then show ?thesis
    using e l unfolding Let_def by blast
qed

section \<open>Properties of the identity resolution\<close>

lemma resolved_row_listed:
  assumes "i < length (OP wr)"
    and "resolve_ranking tsr ratio sps ups (i, OP wr ! i) = Some p"
  shows "p \<in> set (user_offensive_players tsr ratio wr ups sps)"
proof -
  have "(i, OP wr ! i) \<in> set (enumerate 0 (OP wr))"
    using assms(1) by (simp add: in_set_enumerate_eq)
  then show ?thesis
    using assms(2) by (force simp: user_offensive_players_def List.map_filter_def)
qed

text \<open>
  C10: a ranked row is resolved against the whole roster, whatever the rows before it
  matched, so every row that resolves is listed; and at two rows that both name the
  roster's Josh Allen the id \<open>1\<close> occurs once among the starters and once on the bench.
\<close>

theorem same_player_resolved_twice:
  "(\<forall>i p. i < length (OP wr) \<and> resolve_ranking tsr ratio sps ups (i, OP wr ! i) = Some p
        \<longrightarrow> p \<in> set (user_offensive_players tsr ratio wr ups sps))
   \<and> (let a = analyze_weekly_rankings tsr ratio duplicate_rankings (on_roster [''1''])
                 scenario_directory [(''QB'', 1)] []
       in map sleeper_id (starters a) = [Some ''1''] \<and> map rank (starters a) = [1]
          \<and> map sleeper_id (bench a) = [Some ''1''] \<and> map rank (bench a) = [2])"
proof -
  have "let a = analyze_weekly_rankings tsr ratio duplicate_rankings (on_roster [''1''])
                 scenario_directory [(''QB'', 1)] []
       in map sleeper_id (starters a) = [Some ''1''] \<and> map rank (starters a) = [1]
          \<and> map sleeper_id (bench a) = [Some ''1''] \<and> map rank (bench a) = [2]"
    by code_simp
  then show ?thesis
    using resolved_row_listed by blast
qed

text \<open>The theorem of C10 at the second of the two rows.\<close>

theorem same_player_resolved_twice_witness:
  "(1::nat) < length (OP duplicate_rankings)
   \<and> (\<exists>p. resolve_ranking exact_ratio exact_ratio scenario_directory (on_roster [''1''])
             (1, OP duplicate_rankings ! 1) = Some p
          \<and> sleeper_id p = Some ''1''
          \<and> p \<in> set (user_offensive_players exact_ratio exact_ratio duplicate_rankings
                        (on_roster [''1'']) scenario_directory))"
proof -
  let ?r = "resolve_ranking exact_ratio exact_ratio scenario_directory (on_roster [''1''])
              (1, OP duplicate_rankings ! 1)"
  have l: "(1::nat) < length (OP duplicate_rankings)"
    by code_simp
  have r: "?r = Some (on_roster_player ''Josh Allen Jr.'' ''QB2'' 1 ''BUF'' ''1'')"
    by code_simp
  have "on_roster_player ''Josh Allen Jr.'' ''QB2'' 1 ''BUF'' ''1''
          \<in> set (user_offensive_players exact_ratio exact_ratio duplicate_rankings
                    (on_roster [''1'']) scenario_directory)"
    using same_player_resolved_twice
      [of duplicate_rankings exact_ratio exact_ratio scenario_directory "on_roster [''1'']"]
      l r
    by blast
  then show ?thesis
    using l r by (simp add: on_roster_player_def)
qed

lemma best_of_props:
  "best_of b xs = r \<Longrightarrow> r \<in> set (b # xs) \<and> (\<forall>x \<in> set (b # xs). snd x \<le> snd r)"
proof (induction xs arbitrary: b)
  case Nil
  then show ?case by simp
next
  case (Cons x xs)
  from Cons.prems have "best_of (if snd b < snd x then x else b) xs = r"
    by simp
  from Cons.IH [OF this] show ?case
    by (auto split: if_splits)
qed

lemma extractOne_best:
  assumes "extractOne s q cs = Some (k, sc)"
  shows "k \<in> set cs \<and> sc = s q k \<and> (\<forall>c \<in> set cs. s q c \<le> sc)"
proof -
  from assms obtain x xs
    where m: "map (\<lambda>c. (c, s q c)) cs = x # xs" and b: "best_of x xs = (k, sc)"
    by (auto simp: extractOne_def split: list.splits)
  from best_of_props [OF b] have "(k, sc) \<in> set (map (\<lambda>c. (c, s q c)) cs)"
    and "\<forall>y \<in> set (map (\<lambda>c. (c, s q c)) cs). snd y \<le> sc"
    using m by simp_all
  then show ?thesis
    by auto
qed

lemma fuzzy_step_below_threshold:
  assumes "\<forall>c. tsr q c < 95"
  shows "fuzzy_step tsr ratio cmap q = None"
proof (cases "extractOne tsr q (map fst cmap)")
  case None
  then show ?thesis
    by (simp add: fuzzy_step_def)
next
  case (Some a)
  obtain k sc where a: "a = (k, sc)"
    by (cases a)
  with Some extractOne_best [of tsr q "map fst cmap" k sc] have "sc = tsr q k"
    by simp
  with assms have "sc < 95"
    by simp
  then show ?thesis
    using Some a by (simp add: fuzzy_step_def)
qed

text \<open>
  C5: let \<open>key\<close> be the candidate of the highest token-sort score \<open>score\<close>, and let both
  normalised names have a first token. Then the fuzzy step accepts \<open>key\<close> exactly when
  \<open>score\<close> is at least 95 and the similarity of the two first tokens is at least 85, and
  what it returns is the id of \<open>key\<close>. Both bounds are inclusive: 95 with 85 is accepted,
  94 is not.
\<close>

theorem fuzzy_step_thresholds:
  assumes "extractOne tsr nfp (map fst cmap) = Some (key, score)"
    and "first_token (lower nfp) \<noteq> []" and "first_token (lower key) \<noteq> []"
  shows "(fuzzy_step tsr ratio cmap nfp \<noteq> None
            \<longleftrightarrow> 95 \<le> score \<and> 85 \<le> ratio (first_token (lower nfp)) (first_token (lower key)))
         \<and> (fuzzy_step tsr ratio cmap nfp \<noteq> None
              \<longrightarrow> fuzzy_step tsr ratio cmap nfp = map_of cmap key)
         \<and> score = tsr nfp key \<and> (\<forall>c \<in> set (map fst cmap). tsr nfp c \<le> score)
         \<and> (score = 95 \<and> ratio (first_token (lower nfp)) (first_token (lower key)) = 85
              \<longrightarrow> fuzzy_step tsr ratio cmap nfp \<noteq> None)
         \<and> (score = 94 \<longrightarrow> fuzzy_step tsr ratio cmap nfp = None)"
proof -
  from extractOne_best [OF assms(1)]
  have k: "key \<in> set (map fst cmap)" and s: "score = tsr nfp key"
    and m: "\<forall>c \<in> set (map fst cmap). tsr nfp c \<le> score"
    by blast+
  from k have "map_of cmap key \<noteq> None"
    by (simp add: map_of_eq_None_iff)
  then show ?thesis
    using assms s m by (auto simp: fuzzy_step_def Let_def)
qed

text \<open>
  The theorem of C5 at a candidate that scores exactly 95 with a first-token similarity of
  exactly 85: it is matched.
\<close>

theorem fuzzy_step_thresholds_witness:
  "extractOne (\<lambda>q c. if c = ''jon smith'' then 95 else 10) ''john smith''
      (map fst [(''al jones'', ''9''), (''jon smith'', ''5'')]) = Some (''jon smith'', 95)
   \<and> first_token (lower ''john smith'') \<noteq> [] \<and> first_token (lower ''jon smith'') \<noteq> []
   \<and> fuzzy_step (\<lambda>q c. if c = ''jon smith'' then 95 else 10) (\<lambda>a b. 85)
        [(''al jones'', ''9''), (''jon smith'', ''5'')] ''john smith'' = Some ''5''"
proof -
  let ?tsr = "\<lambda>(q::string) c. if c = ''jon smith'' then 95 else (10::nat)"
  let ?cmap = "[(''al jones'', ''9''), (''jon smith'', ''5'')]"
  have e: "extractOne ?tsr ''john smith'' (map fst ?cmap) = Some (''jon smith'', 95)"
    by code_simp
  have f1: "first_token (lower ''john smith'') \<noteq> []"
    by code_simp
  have f2: "first_token (lower ''jon smith'') \<noteq> []"
    by code_simp
  have "fuzzy_step ?tsr (\<lambda>a b. 85) ?cmap ''john smith'' \<noteq> None"
    and "fuzzy_step ?tsr (\<lambda>a b. 85) ?cmap ''john smith'' \<noteq> None
         \<longrightarrow> fuzzy_step ?tsr (\<lambda>a b. 85) ?cmap ''john smith'' = map_of ?cmap ''jon smith''"
    using fuzzy_step_thresholds [OF e f1 f2, of "\<lambda>a b. 85"] by simp_all
  then have "fuzzy_step ?tsr (\<lambda>a b. 85) ?cmap ''john smith'' = Some ''5''"
    by simp
  then show ?thesis
    using e f1 f2 by blast
qed

text \<open>
  C6: the fallback matches exactly when one directory entry has the player's normalised
  last name, team and position, the team being neither empty nor the free-agent marker;
  with two or more such entries, or with none, it matches nothing. With the two Smiths of
  the scenario, a name that no earlier step matches stays unmatched; with the one Brown it
  is matched.
\<close>

theorem fallback_exactly_one:
  "(fallback_step sps p = Some i \<longleftrightarrow> fallback_candidates sps p = [i])
   \<and> (length (fallback_candidates sps p) \<noteq> 1 \<longrightarrow> fallback_step sps p = None)
   \<and> set (fallback_candidates sps p)
       = {sp_id. \<exists>sp. (sp_id, sp) \<in> set sps
            \<and> last (split_on_space (normalize_str (fp_name p))) \<noteq> []
            \<and> upper (fp_team p) \<noteq> [] \<and> upper (fp_team p) \<noteq> ''FA''
            \<and> upper (fp_position p) \<noteq> []
            \<and> normalize_str (sp_last_name sp) = last (split_on_space (normalize_str (fp_name p)))
            \<and> upper (sp_team sp) = upper (fp_team p)
            \<and> upper (sp_position sp) = upper (fp_position p)}
   \<and> fallback_candidates scenario_directory hollywood_smith = [''5'', ''6'']
   \<and> ((\<forall>c. tsr (normalize_str (fp_name hollywood_smith)) c < 95)
        \<longrightarrow> match_player tsr ratio scenario_directory hollywood_smith = None)
   \<and> ((\<forall>c. tsr (normalize_str (fp_name hollywood_brown)) c < 95)
        \<longrightarrow> match_player tsr ratio scenario_directory hollywood_brown = Some ''7'')"
proof -
  have one: "(fallback_step sps p = Some i \<longleftrightarrow> fallback_candidates sps p = [i])
             \<and> (length (fallback_candidates sps p) \<noteq> 1 \<longrightarrow> fallback_step sps p = None)"
    by (auto simp: fallback_step_def split: list.splits)
  have cands: "set (fallback_candidates sps p)
       = {sp_id. \<exists>sp. (sp_id, sp) \<in> set sps
            \<and> last (split_on_space (normalize_str (fp_name p))) \<noteq> []
            \<and> upper (fp_team p) \<noteq> [] \<and> upper (fp_team p) \<noteq> ''FA''
            \<and> upper (fp_position p) \<noteq> []
            \<and> normalize_str (sp_last_name sp) = last (split_on_space (normalize_str (fp_name p)))
            \<and> upper (sp_team sp) = upper (fp_team p)
            \<and> upper (sp_position sp) = upper (fp_position p)}"
    unfolding fallback_candidates_def Let_def by force
  have two: "fallback_candidates scenario_directory hollywood_smith = [''5'', ''6'']"
    by code_simp
  have smith: "match_player tsr ratio scenario_directory hollywood_smith = None"
    if a: "\<forall>c. tsr (normalize_str (fp_name hollywood_smith)) c < 95"
  proof -
    have 1: "map_of (sleeper_names scenario_directory) (fp_name hollywood_smith) = None"
      by code_simp
    have 2: "map_of (normalized_map scenario_directory)
               (normalize_str (fp_name hollywood_smith)) = None"
      by code_simp
    have 3: "fallback_step scenario_directory hollywood_smith = None"
      using two by (simp add: fallback_step_def)
    show ?thesis
      using 1 2 3
        fuzzy_step_below_threshold
          [of tsr "normalize_str (fp_name hollywood_smith)" ratio
              "candidates_map scenario_directory (fp_position hollywood_smith)"] a
      by (simp add: match_player_def Let_def)
  qed
  have brown: "match_player tsr ratio scenario_directory hollywood_brown = Some ''7''"
    if a: "\<forall>c. tsr (normalize_str (fp_name hollywood_brown)) c < 95"
  proof -
    have 1: "map_of (sleeper_names scenario_directory) (fp_name hollywood_brown) = None"
      by code_simp
    have 2: "map_of (normalized_map scenario_directory)
               (normalize_str (fp_name hollywood_brown)) = None"
      by code_simp
    have 3: "fallback_step scenario_directory hollywood_brown = Some ''7''"
      by code_simp
    show ?thesis
      using 1 2 3
        fuzzy_step_below_threshold
          [of tsr "normalize_str (fp_name hollywood_brown)" ratio
              "candidates_map scenario_directory (fp_position hollywood_brown)"] a
      by (simp add: match_player_def Let_def)
  qed
  show ?thesis
    using one cands two smith brown by blast
qed

text \<open>
  The theorem of C6 at the two scenarios, with a scorer that finds no candidate similar.
\<close>

theorem fallback_exactly_one_witness:
  "(\<forall>c. (\<lambda>a b. 0::nat) (normalize_str (fp_name hollywood_smith)) c < 95)
   \<and> match_player (\<lambda>a b. 0) (\<lambda>a b. 0) scenario_directory hollywood_smith = None
   \<and> length (fallback_candidates scenario_directory hollywood_smith) \<noteq> 1
   \<and> fallback_step scenario_directory hollywood_smith = None
   \<and> fallback_candidates scenario_directory hollywood_brown = [''7'']
   \<and> fallback_step scenario_directory hollywood_brown = Some ''7''"
proof -
  note t = fallback_exactly_one
      [of scenario_directory hollywood_smith "''5''" "\<lambda>a b. 0" "\<lambda>a b. 0"]
  note b = fallback_exactly_one
      [of scenario_directory hollywood_brown "''7''" "\<lambda>a b. 0" "\<lambda>a b. 0"]
  have two: "length (fallback_candidates scenario_directory hollywood_smith) \<noteq> 1"
    using t by simp
  have m: "match_player (\<lambda>a b. 0) (\<lambda>a b. 0) scenario_directory hollywood_smith = None"
    using t by simp
  have s: "fallback_step scenario_directory hollywood_smith = None"
    using t two by blast
  have c: "fallback_candidates scenario_directory hollywood_brown = [''7'']"
    by code_simp
  then have "fallback_step scenario_directory hollywood_brown = Some ''7''"
    using b by blast
  then show ?thesis
    using two m s c by simp
qed

section \<open>Properties of the allocator\<close>


lemma first_pass_by_position:
  "filter (\<lambda>p. position p = P) (fst (first_pass req used ps sb))
     = filter (\<lambda>p. position p = P) (fst sb)
       @ take (capacity req P - used P) (filter (\<lambda>p. position p = P) ps)
   \<and> filter (\<lambda>p. position p = P) (snd (first_pass req used ps sb))
     = filter (\<lambda>p. position p = P) (snd sb)
       @ drop (capacity req P - used P) (filter (\<lambda>p. position p = P) ps)"
proof (induction ps arbitrary: used sb)
  case Nil
  then show ?case by simp
next
  case (Cons p ps)
  show ?case
  proof (cases "req (position p)")
    case None
    then show ?thesis
      by (auto simp: capacity_def Cons.IH)
  next
    case (Some n)
    show ?thesis
    proof (cases "used (position p) < n")
      case True
      then show ?thesis
        using Some by (auto simp: capacity_def Cons.IH take_Cons' drop_Cons' Suc_diff_Suc)
    next
      case False
      then show ?thesis
        using Some by (auto simp: capacity_def Cons.IH)
    qed
  qed
qed

lemma first_pass_starter_positions:
  "s \<in> set (fst (first_pass req used ps sb)) \<Longrightarrow>
   s \<in> set (fst sb) \<or> (s \<in> set ps \<and> position s \<in> dom req)"
  by (induction ps arbitrary: used sb) (fastforce split: option.splits if_splits)+

lemma remove1_insort_key_other:
  "sorted (map f zs) \<Longrightarrow> x \<noteq> y \<Longrightarrow>
   remove1 x (insort_key f y zs) = insort_key f y (remove1 x zs)"
proof (induction zs)
  case Nil
  then show ?case by simp
next
  case (Cons z zs)
  then show ?case
    by (cases zs) (auto simp: insort_key.simps)
qed

lemma sort_key_remove1:
  "sort_key f (remove1 x xs) = remove1 x (sort_key f xs)"
proof (induction xs)
  case Nil
  then show ?case by simp
next
  case (Cons y ys)
  then show ?case
    by (cases "x = y") (simp_all add: remove1_insort_key_other)
qed


lemma eligible_list_remove1:
  "eligible_list ps (remove1 b bn) = remove1 b (eligible_list ps bn)"
  by (simp add: eligible_list_def filter_remove1 sort_key_remove1)

lemma eligible_list_head:
  assumes "eligible_list ps bn = b # rest"
  shows "b \<in> set bn" and "position b \<in> set ps"
    and "\<forall>q \<in> set bn. position q \<in> set ps \<longrightarrow> rank b \<le> rank q"
    and "eligible_list ps (remove1 b bn) = rest"
proof -
  have m: "b \<in> set (eligible_list ps bn)"
    using assms by simp
  then show "b \<in> set bn" and "position b \<in> set ps"
    by (simp_all add: eligible_list_def)
  have "sorted (map rank (b # rest))"
    using assms [symmetric] by (simp add: eligible_list_def)
  then have "\<forall>q \<in> set (b # rest). rank b \<le> rank q"
    by auto
  then show "\<forall>q \<in> set bn. position q \<in> set ps \<longrightarrow> rank b \<le> rank q"
    using assms [symmetric] by (simp add: eligible_list_def)
  show "eligible_list ps (remove1 b bn) = rest"
    using assms by (simp add: eligible_list_remove1)
qed

lemma remove_if_present_remove1: "remove_if_present x xs = remove1 x xs"
  by (simp add: remove_if_present_def remove1_idem)

lemma fill_super_flex_refines:
  assumes "all_flex_players a = eligible_list [''QB'', ''RB'', ''WR'', ''TE''] (cur_bench a)"
    and "wrrbte_flex_players a = eligible_list [''RB'', ''WR'', ''TE''] (cur_bench a)"
    and "wrrb_flex_players a = eligible_list [''RB'', ''WR''] (cur_bench a)"
  shows "lineup (fill_super_flex a) = spec_fill ''SUPER_FLEX'' (lineup a)"
    and "all_flex_players (fill_super_flex a)
           = eligible_list [''QB'', ''RB'', ''WR'', ''TE''] (cur_bench (fill_super_flex a))"
    and "wrrbte_flex_players (fill_super_flex a)
           = eligible_list [''RB'', ''WR'', ''TE''] (cur_bench (fill_super_flex a))"
    and "wrrb_flex_players (fill_super_flex a)
           = eligible_list [''RB'', ''WR''] (cur_bench (fill_super_flex a))"
proof -
  show "lineup (fill_super_flex a) = spec_fill ''SUPER_FLEX'' (lineup a)"
    using assms(1)
    by (simp add: fill_super_flex_def spec_fill_def lineup_def eligible_positions_def
             split: list.splits)
  show "all_flex_players (fill_super_flex a)
           = eligible_list [''QB'', ''RB'', ''WR'', ''TE''] (cur_bench (fill_super_flex a))"
  proof (cases "all_flex_players a")
    case Nil
    then show ?thesis using assms(1) by (simp add: fill_super_flex_def)
  next
    case (Cons b rest)
    then show ?thesis
      using assms(1) eligible_list_head(4) [of "[''QB'', ''RB'', ''WR'', ''TE'']" "cur_bench a" b rest]
      by (simp add: fill_super_flex_def)
  qed
  show "wrrbte_flex_players (fill_super_flex a)
           = eligible_list [''RB'', ''WR'', ''TE''] (cur_bench (fill_super_flex a))"
    using assms(2)
    by (simp add: fill_super_flex_def remove_if_present_remove1 eligible_list_remove1
             split: list.splits)
  show "wrrb_flex_players (fill_super_flex a)
           = eligible_list [''RB'', ''WR''] (cur_bench (fill_super_flex a))"
    using assms(3)
    by (simp add: fill_super_flex_def remove_if_present_remove1 eligible_list_remove1
             split: list.splits)
qed

lemma fill_flex_refines:
  assumes "slot = ''FLEX'' \<or> slot = ''WRRBTE_FLEX''"
    and "wrrbte_flex_players a = eligible_list [''RB'', ''WR'', ''TE''] (cur_bench a)"
    and "wrrb_flex_players a = eligible_list [''RB'', ''WR''] (cur_bench a)"
  shows "lineup (fill_flex slot a) = spec_fill slot (lineup a)"
    and "wrrbte_flex_players (fill_flex slot a)
           = eligible_list [''RB'', ''WR'', ''TE''] (cur_bench (fill_flex slot a))"
    and "wrrb_flex_players (fill_flex slot a)
           = eligible_list [''RB'', ''WR''] (cur_bench (fill_flex slot a))"
proof -
  have e: "eligible_positions slot = [''RB'', ''WR'', ''TE'']"
    using assms(1) by (auto simp: eligible_positions_def)
  show "lineup (fill_flex slot a) = spec_fill slot (lineup a)"
    using assms(2) e
    by (simp add: fill_flex_def spec_fill_def lineup_def split: list.splits)
  show "wrrbte_flex_players (fill_flex slot a)
           = eligible_list [''RB'', ''WR'', ''TE''] (cur_bench (fill_flex slot a))"
  proof (cases "wrrbte_flex_players a")
    case Nil
    then show ?thesis using assms(2) by (simp add: fill_flex_def)
  next
    case (Cons b rest)
    then show ?thesis
      using assms(2) eligible_list_head(4) [of "[''RB'', ''WR'', ''TE'']" "cur_bench a" b rest]
      by (simp add: fill_flex_def)
  qed
  show "wrrb_flex_players (fill_flex slot a)
           = eligible_list [''RB'', ''WR''] (cur_bench (fill_flex slot a))"
    using assms(3)
    by (simp add: fill_flex_def remove_if_present_remove1 eligible_list_remove1
             split: list.splits)
qed

lemma fill_wrrb_flex_refines:
  assumes "wrrb_flex_players a = eligible_list [''RB'', ''WR''] (cur_bench a)"
  shows "lineup (fill_wrrb_flex a) = spec_fill ''WRRB_FLEX'' (lineup a)"
    and "wrrb_flex_players (fill_wrrb_flex a)
           = eligible_list [''RB'', ''WR''] (cur_bench (fill_wrrb_flex a))"
proof -
  show "lineup (fill_wrrb_flex a) = spec_fill ''WRRB_FLEX'' (lineup a)"
    using assms
    by (simp add: fill_wrrb_flex_def spec_fill_def lineup_def eligible_positions_def
             split: list.splits)
  show "wrrb_flex_players (fill_wrrb_flex a)
           = eligible_list [''RB'', ''WR''] (cur_bench (fill_wrrb_flex a))"
  proof (cases "wrrb_flex_players a")
    case Nil
    then show ?thesis using assms by (simp add: fill_wrrb_flex_def)
  next
    case (Cons b rest)
    then show ?thesis
      using assms eligible_list_head(4) [of "[''RB'', ''WR'']" "cur_bench a" b rest]
      by (simp add: fill_wrrb_flex_def)
  qed
qed

lemma super_flex_passes:
  assumes "all_flex_players a = eligible_list [''QB'', ''RB'', ''WR'', ''TE''] (cur_bench a)"
    and "wrrbte_flex_players a = eligible_list [''RB'', ''WR'', ''TE''] (cur_bench a)"
    and "wrrb_flex_players a = eligible_list [''RB'', ''WR''] (cur_bench a)"
  shows "lineup ((fill_super_flex ^^ n) a) = (spec_fill ''SUPER_FLEX'' ^^ n) (lineup a)
    \<and> wrrbte_flex_players ((fill_super_flex ^^ n) a)
           = eligible_list [''RB'', ''WR'', ''TE''] (cur_bench ((fill_super_flex ^^ n) a))
    \<and> wrrb_flex_players ((fill_super_flex ^^ n) a)
           = eligible_list [''RB'', ''WR''] (cur_bench ((fill_super_flex ^^ n) a))
    \<and> all_flex_players ((fill_super_flex ^^ n) a)
           = eligible_list [''QB'', ''RB'', ''WR'', ''TE''] (cur_bench ((fill_super_flex ^^ n) a))"
proof (induction n)
  case 0
  then show ?case using assms by simp
next
  case (Suc n)
  then show ?case
    using fill_super_flex_refines [of "(fill_super_flex ^^ n) a"] by simp
qed

lemma flex_passes:
  assumes "slot = ''FLEX'' \<or> slot = ''WRRBTE_FLEX''"
    and "wrrbte_flex_players a = eligible_list [''RB'', ''WR'', ''TE''] (cur_bench a)"
    and "wrrb_flex_players a = eligible_list [''RB'', ''WR''] (cur_bench a)"
  shows "lineup ((fill_flex slot ^^ n) a) = (spec_fill slot ^^ n) (lineup a)
    \<and> wrrbte_flex_players ((fill_flex slot ^^ n) a)
           = eligible_list [''RB'', ''WR'', ''TE''] (cur_bench ((fill_flex slot ^^ n) a))
    \<and> wrrb_flex_players ((fill_flex slot ^^ n) a)
           = eligible_list [''RB'', ''WR''] (cur_bench ((fill_flex slot ^^ n) a))"
proof (induction n)
  case 0
  then show ?case using assms by simp
next
  case (Suc n)
  then show ?case
    using fill_flex_refines [OF assms(1), of "(fill_flex slot ^^ n) a"] by simp
qed

lemma wrrb_flex_passes:
  assumes "wrrb_flex_players a = eligible_list [''RB'', ''WR''] (cur_bench a)"
  shows "lineup ((fill_wrrb_flex ^^ n) a) = (spec_fill ''WRRB_FLEX'' ^^ n) (lineup a)
    \<and> wrrb_flex_players ((fill_wrrb_flex ^^ n) a)
           = eligible_list [''RB'', ''WR''] (cur_bench ((fill_wrrb_flex ^^ n) a))"
proof (induction n)
  case 0
  then show ?case using assms by simp
next
  case (Suc n)
  then show ?case
    using fill_wrrb_flex_refines [of "(fill_wrrb_flex ^^ n) a"] by simp
qed

lemma second_pass_refines:
  "lineup (second_pass req sb) = spec_flex_phase req sb
   \<and> wrrb_flex_players (second_pass req sb)
       = eligible_list [''RB'', ''WR''] (cur_bench (second_pass req sb))"
proof -
  define a0 where "a0 = flex_start sb"
  define a1 where "a1 = (fill_super_flex ^^ capacity req ''SUPER_FLEX'') a0"
  define a2 where "a2 = (fill_flex ''FLEX'' ^^ capacity req ''FLEX'') a1"
  define a3 where "a3 = (fill_flex ''WRRBTE_FLEX'' ^^ capacity req ''WRRBTE_FLEX'') a2"
  define a4 where "a4 = (fill_wrrb_flex ^^ capacity req ''WRRB_FLEX'') a3"
  have s: "second_pass req sb = a4"
    by (simp add: second_pass_def Let_def a0_def a1_def a2_def a3_def a4_def)
  have l0: "lineup a0 = sb"
    by (simp add: a0_def flex_start_def lineup_def)
  have i0: "all_flex_players a0 = eligible_list [''QB'', ''RB'', ''WR'', ''TE''] (cur_bench a0)"
    "wrrbte_flex_players a0 = eligible_list [''RB'', ''WR'', ''TE''] (cur_bench a0)"
    "wrrb_flex_players a0 = eligible_list [''RB'', ''WR''] (cur_bench a0)"
    by (simp_all add: a0_def flex_start_def)
  note p1 = super_flex_passes [OF i0, of "capacity req ''SUPER_FLEX''", folded a1_def]
  from p1 have i1: "wrrbte_flex_players a1 = eligible_list [''RB'', ''WR'', ''TE''] (cur_bench a1)"
    "wrrb_flex_players a1 = eligible_list [''RB'', ''WR''] (cur_bench a1)"
    by simp_all
  note p2 = flex_passes [OF _ i1, of "''FLEX''" "capacity req ''FLEX''", folded a2_def]
  from p2 have i2: "wrrbte_flex_players a2 = eligible_list [''RB'', ''WR'', ''TE''] (cur_bench a2)"
    "wrrb_flex_players a2 = eligible_list [''RB'', ''WR''] (cur_bench a2)"
    by simp_all
  note p3 = flex_passes [OF _ i2, of "''WRRBTE_FLEX''" "capacity req ''WRRBTE_FLEX''", folded a3_def]
  from p3 have i3: "wrrb_flex_players a3 = eligible_list [''RB'', ''WR''] (cur_bench a3)"
    by simp
  note p4 = wrrb_flex_passes [OF i3, of "capacity req ''WRRB_FLEX''", folded a4_def]
  have "lineup a4 = spec_flex_phase req sb"
    using p1 p2 p3 p4 l0 by (simp add: spec_flex_phase_def)
  then show ?thesis
    using p4 s by simp
qed

lemma spec_fill_cases:
  "(if \<exists>q \<in> set (snd sb). position q \<in> set (eligible_positions slot)
    then \<exists>b \<in> set (snd sb). position b \<in> set (eligible_positions slot)
           \<and> (\<forall>q \<in> set (snd sb). position q \<in> set (eligible_positions slot) \<longrightarrow> rank b \<le> rank q)
           \<and> spec_fill slot sb = (fst sb @ [b \<lparr> flex_slot := Some slot \<rparr>], remove1 b (snd sb))
    else spec_fill slot sb = sb)"
proof (cases "eligible_list (eligible_positions slot) (snd sb)")
  case Nil
  then have "filter (\<lambda>p. position p \<in> set (eligible_positions slot)) (snd sb) = []"
    by (metis eligible_list_def length_0_conv length_sort)
  then have "\<not> (\<exists>q \<in> set (snd sb). position q \<in> set (eligible_positions slot))"
    by (simp add: filter_empty_conv)
  then show ?thesis
    using Nil by (simp add: spec_fill_def)
next
  case (Cons b rest)
  note h = eligible_list_head [OF Cons]
  have "spec_fill slot sb = (fst sb @ [b \<lparr> flex_slot := Some slot \<rparr>], remove1 b (snd sb))"
    using Cons by (simp add: spec_fill_def)
  then show ?thesis
    using h(1,2,3) by auto
qed

text \<open>What a fill may do, as a rule for the invariants below.\<close>

lemma spec_fill_induct [consumes 0, case_names same move]:
  assumes "P sb"
    and "\<And>b. b \<in> set (snd sb) \<Longrightarrow> position b \<in> set (eligible_positions slot) \<Longrightarrow>
           (\<forall>q \<in> set (snd sb). position q \<in> set (eligible_positions slot) \<longrightarrow> rank b \<le> rank q) \<Longrightarrow>
           P (fst sb @ [b \<lparr> flex_slot := Some slot \<rparr>], remove1 b (snd sb))"
  shows "P (spec_fill slot sb)"
  using spec_fill_cases [of sb slot] assms by (auto split: if_splits)

lemma funpow_invariant:
  assumes "P x" and "\<And>y. P y \<Longrightarrow> P (f y)"
  shows "P ((f ^^ n) x)"
  using assms by (induction n) simp_all

lemma spec_flex_phase_invariant:
  assumes "P sb" and "\<And>slot y. P y \<Longrightarrow> P (spec_fill slot y)"
  shows "P (spec_flex_phase req sb)"
  unfolding spec_flex_phase_def
  using assms by (simp add: funpow_invariant)

lemma spec_fill_ranks_ordered:
  assumes "ranks_ordered sb"
  shows "ranks_ordered (spec_fill slot sb)"
proof (rule spec_fill_induct)
  show "ranks_ordered sb" by (rule assms)
next
  fix b
  assume b: "b \<in> set (snd sb)" "position b \<in> set (eligible_positions slot)"
    "\<forall>q \<in> set (snd sb). position q \<in> set (eligible_positions slot) \<longrightarrow> rank b \<le> rank q"
  show "ranks_ordered (fst sb @ [b \<lparr> flex_slot := Some slot \<rparr>], remove1 b (snd sb))"
    unfolding ranks_ordered_def
  proof (intro ballI impI)
    fix s q
    assume s: "s \<in> set (fst (fst sb @ [b \<lparr> flex_slot := Some slot \<rparr>], remove1 b (snd sb)))"
      and q: "q \<in> set (snd (fst sb @ [b \<lparr> flex_slot := Some slot \<rparr>], remove1 b (snd sb)))"
      and e: "position s = position q"
    have q': "q \<in> set (snd sb)"
      using q set_remove1_subset [of b "snd sb"] by auto
    show "rank s \<le> rank q"
    proof (cases "s \<in> set (fst sb)")
      case True
      then show ?thesis
        using assms q' e by (auto simp: ranks_ordered_def)
    next
      case False
      then have "s = b \<lparr> flex_slot := Some slot \<rparr>"
        using s by simp
      then show ?thesis
        using b q' e by auto
    qed
  qed
qed

lemma first_pass_ranks_ordered:
  assumes "sorted (map rank ps)"
  shows "ranks_ordered (first_pass req (\<lambda>pos. 0) ps ([], []))"
  unfolding ranks_ordered_def
proof (intro ballI impI)
  fix s b
  let ?r = "first_pass req (\<lambda>pos. 0) ps ([], [])"
  assume s: "s \<in> set (fst ?r)" and b: "b \<in> set (snd ?r)" and e: "position s = position b"
  let ?P = "position b"
  let ?f = "filter (\<lambda>p. position p = ?P) ps"
  note fp = first_pass_by_position [of ?P req "\<lambda>pos. 0" ps "([], [])"]
  have "s \<in> set (filter (\<lambda>p. position p = ?P) (fst ?r))"
    using s e by simp
  then have s': "s \<in> set (take (capacity req ?P) ?f)"
    using fp by simp
  have "b \<in> set (filter (\<lambda>p. position p = ?P) (snd ?r))"
    using b by simp
  then have b': "b \<in> set (drop (capacity req ?P) ?f)"
    using fp by simp
  have "sorted (map rank ?f)"
    using assms by (rule sorted_filter)
  then have "sorted (map rank (take (capacity req ?P) ?f) @ map rank (drop (capacity req ?P) ?f))"
    by (simp flip: map_append)
  then show "rank s \<le> rank b"
    using s' b' by (auto simp: sorted_append)
qed

lemma sorted_starters_by_slot:
  assumes "\<And>pos x. x \<in> set (by_pos pos) \<Longrightarrow> slot_of x = pos"
  shows "filter (\<lambda>s. slot_of s = P) (sorted_starters by_pos c order acc)
           = filter (\<lambda>s. slot_of s = P) acc
             @ take (count_list order P) (drop (c P) (by_pos P))"
proof (induction order arbitrary: c acc)
  case Nil
  then show ?case by simp
next
  case (Cons pos rest)
  show ?case
  proof (cases "c pos < length (by_pos pos)")
    case True
    let ?x = "by_pos pos ! c pos"
    have x: "slot_of ?x = pos"
      using True assms by simp
    have d: "drop (c pos) (by_pos pos) = ?x # drop (Suc (c pos)) (by_pos pos)"
      using True by (simp add: Cons_nth_drop_Suc)
    show ?thesis
      using True x d by (auto simp: Cons.IH)
  next
    case False
    then show ?thesis
      by (auto simp: Cons.IH)
  qed
qed

lemma starters_by_pos_slot: "x \<in> set (starters_by_pos ss pos) \<Longrightarrow> slot_of x = pos"
  by (simp add: starters_by_pos_def)

lemma ordered_by_slot:
  "filter (\<lambda>s. slot_of s = P) (sorted_starters (starters_by_pos ss) (\<lambda>pos. 0) order [])
     = take (count_list order P) (starters_by_pos ss P)"
  using sorted_starters_by_slot [of "starters_by_pos ss" P "\<lambda>pos. 0" order "[]"]
  by (simp add: starters_by_pos_slot)

lemma ordered_subset:
  "set (sorted_starters (starters_by_pos ss) (\<lambda>pos. 0) order []) \<subseteq> set ss"
proof
  fix x
  assume "x \<in> set (sorted_starters (starters_by_pos ss) (\<lambda>pos. 0) order [])"
  then have "x \<in> set (filter (\<lambda>s. slot_of s = slot_of x)
                        (sorted_starters (starters_by_pos ss) (\<lambda>pos. 0) order []))"
    by simp
  then have "x \<in> set (take (count_list order (slot_of x)) (starters_by_pos ss (slot_of x)))"
    by (simp only: ordered_by_slot)
  then have "x \<in> set (starters_by_pos ss (slot_of x))"
    by (rule in_set_takeD)
  then show "x \<in> set ss"
    by (simp add: starters_by_pos_def)
qed




lemma allocate_lineup:
  "lineup (allocate rs ps)
     = spec_flex_phase (position_requirements rs)
         (first_pass (position_requirements rs) (\<lambda>pos. 0) ps ([], []))"
  by (simp add: allocate_def Let_def second_pass_refines)

lemma allocate_ranks_ordered:
  assumes "sorted (map rank ps)"
  shows "ranks_ordered (lineup (allocate rs ps))"
  unfolding allocate_lineup
  by (rule spec_flex_phase_invariant)
     (simp_all add: first_pass_ranks_ordered assms spec_fill_ranks_ordered)

lemma best_available_position:
  "s \<in> set (best_available pos needed ws rs) \<Longrightarrow>
   position s = pos \<and> position_with_rank s = None"
  by (auto simp: best_available_def as_starter_def split: if_splits list.splits)

lemma sorted_user_offensive_players:
  "sorted (map rank (user_offensive_players tsr ratio wr ups sps))"
  by (simp add: user_offensive_players_def)

lemma analysis_fields:
  fixes tsr ratio wr ups sps rs lg
  defines "a \<equiv> analyze_weekly_rankings tsr ratio wr ups sps rs lg"
    and "al \<equiv> allocate rs (user_offensive_players tsr ratio wr ups sps)"
  shows "starters a
           = sorted_starters (starters_by_pos (cur_starters al)) (\<lambda>pos. 0) (position_order rs) []
             @ best_available ''K'' (rs_get rs ''K'') (waiver_kickers a) (kickers a)
             @ best_available ''DEF'' (rs_get rs ''DEF'') (waiver_defenses a) (defenses a)"
    and "bench a = cur_bench al"
    and "kickers a = sort_key e_rank (on_roster_entries (placed_kickers wr ups sps lg))"
    and "defenses a = sort_key e_rank (on_roster_entries (placed_defenses wr ups sps lg))"
    and "waiver_kickers a
           = take 5 (sort_key e_rank (kickers a
               @ sort_key e_rank (waiver_entries (placed_kickers wr ups sps lg))))"
    and "waiver_defenses a
           = take 5 (sort_key e_rank (defenses a
               @ sort_key e_rank (waiver_entries (placed_defenses wr ups sps lg))))"
  by (simp_all add: a_def al_def analyze_weekly_rankings_def Let_def)






















lemma sort_key_head:
  assumes "sort_key f xs = y # ys"
  shows "y \<in> set xs" and "\<forall>x \<in> set xs. f y \<le> f x"
proof -
  have s: "set (y # ys) = set xs"
    using assms [symmetric] by simp
  then show "y \<in> set xs"
    by auto
  have "sorted (map f (y # ys))"
    using assms [symmetric] by simp
  then have "\<forall>x \<in> set (y # ys). f y \<le> f x"
    by auto
  then show "\<forall>x \<in> set xs. f y \<le> f x"
    by (simp only: s)
qed

lemma roster_kicker_flag: "roster_kicker sps nm idx ups = Some e \<Longrightarrow> e_is_on_roster e"
  by (induction ups) (auto split: option.splits if_splits)

lemma roster_defense_flag: "roster_defense sps nm ab idx ups = Some e \<Longrightarrow> e_is_on_roster e"
  by (induction ups) (auto split: option.splits if_splits)

lemma placed_flags:
  "(\<forall>e \<in> set (on_roster_entries (placed_kickers wr ups sps lg)). e_is_on_roster e)
   \<and> (\<forall>e \<in> set (waiver_entries (placed_kickers wr ups sps lg)). \<not> e_is_on_roster e)
   \<and> (\<forall>e \<in> set (on_roster_entries (placed_defenses wr ups sps lg)). e_is_on_roster e)
   \<and> (\<forall>e \<in> set (waiver_entries (placed_defenses wr ups sps lg)). \<not> e_is_on_roster e)"
  by (auto simp: on_roster_entries_def waiver_entries_def placed_kickers_def placed_defenses_def
        place_kicker_def place_defense_def Let_def
      split: placed.splits if_splits option.splits
      dest: roster_kicker_flag roster_defense_flag)

lemma best_available_choice:
  assumes r: "rs = sort_key e_rank roster"
    and w: "ws = take 5 (sort_key e_rank (rs @ sort_key e_rank waiver))"
    and fr: "\<forall>e \<in> set roster. e_is_on_roster e"
    and fw: "\<forall>e \<in> set waiver. \<not> e_is_on_roster e"
  shows "if 0 < needed \<and> roster @ waiver \<noteq> []
         then \<exists>b \<in> set (roster @ waiver). (\<forall>x \<in> set (roster @ waiver). e_rank b \<le> e_rank x)
                \<and> best_available pos needed ws rs = [as_starter pos (\<not> e_is_on_roster b) b]
         else best_available pos needed ws rs = []"
proof (cases "0 < needed \<and> roster @ waiver \<noteq> []")
  case False
  then have "needed = 0 \<or> (rs = [] \<and> ws = [])"
    using r w by auto
  then show ?thesis
    using False by (auto simp: best_available_def)
next
  case True
  let ?all = "sort_key e_rank (rs @ sort_key e_rank waiver)"
  have ne: "?all \<noteq> []"
    using True r by (metis append_is_Nil_conv length_0_conv length_sort)
  then obtain bw rest where all: "?all = bw # rest"
    by (cases ?all) auto
  have wsh: "ws = bw # take 4 rest"
    using w all by (simp add: take_Cons')
  have "set (rs @ sort_key e_rank waiver) = set (roster @ waiver)"
    unfolding r by simp
  then have bw: "bw \<in> set (roster @ waiver)"
    and bwmin: "\<forall>x \<in> set (roster @ waiver). e_rank bw \<le> e_rank x"
    using sort_key_head [OF all] by (simp_all only:)
  show ?thesis
  proof (cases rs)
    case Nil
    then have "roster = []"
      using r by (metis length_0_conv length_sort)
    then have "\<not> e_is_on_roster bw"
      using bw fw by simp
    moreover have "best_available pos needed ws rs = [as_starter pos True bw]"
      using True wsh Nil by (simp add: best_available_def)
    ultimately show ?thesis
      using True bw bwmin by auto
  next
    case (Cons br rest')
    from sort_key_head [OF Cons [unfolded r]]
    have br: "br \<in> set roster" and brmin: "\<forall>x \<in> set roster. e_rank br \<le> e_rank x"
      by simp_all
    show ?thesis
    proof (cases "e_rank bw < e_rank br")
      case less: True
      then have "bw \<notin> set roster"
        using brmin by auto
      then have "\<not> e_is_on_roster bw"
        using bw fw by simp
      moreover have "best_available pos needed ws rs = [as_starter pos True bw]"
        using True wsh Cons less by (simp add: best_available_def)
      ultimately show ?thesis
        using True bw bwmin by auto
    next
      case False
      then have "e_rank br \<le> e_rank bw"
        by simp
      then have "\<forall>x \<in> set (roster @ waiver). e_rank br \<le> e_rank x"
        using bwmin by (meson order_trans)
      moreover have "e_is_on_roster br"
        using br fr by simp
      moreover have "best_available pos needed ws rs = [as_starter pos False br]"
        using True wsh Cons False by (simp add: best_available_def)
      ultimately show ?thesis
        using True br by auto
    qed
  qed
qed

lemma spec_flex_phase_positions:
  assumes "\<forall>s \<in> set (fst sb). position s \<in> set requirement_keys"
  shows "\<forall>s \<in> set (fst (spec_flex_phase req sb)). position s \<in> set requirement_keys"
proof (rule spec_flex_phase_invariant
    [where P = "\<lambda>x. \<forall>s \<in> set (fst x). position s \<in> set requirement_keys"])
  show "\<forall>s \<in> set (fst sb). position s \<in> set requirement_keys"
    by (rule assms)
next
  fix slot and y :: "player list \<times> player list"
  assume y: "\<forall>s \<in> set (fst y). position s \<in> set requirement_keys"
  show "\<forall>s \<in> set (fst (spec_fill slot y)). position s \<in> set requirement_keys"
  proof (rule spec_fill_induct
      [where P = "\<lambda>x. \<forall>s \<in> set (fst x). position s \<in> set requirement_keys"])
    show "\<forall>s \<in> set (fst y). position s \<in> set requirement_keys"
      by (rule y)
  next
    fix b :: player
    assume "position b \<in> set (eligible_positions slot)"
    then have "position b \<in> set requirement_keys"
      by (auto simp: eligible_positions_def requirement_keys_def split: if_splits)
    then show "\<forall>s \<in> set (fst (fst y @ [b \<lparr> flex_slot := Some slot \<rparr>], remove1 b (snd y))).
                 position s \<in> set requirement_keys"
      using y by auto
  qed
qed

lemma allocate_positions:
  assumes "s \<in> set (cur_starters (allocate rs ps))"
  shows "position s \<in> set requirement_keys"
proof -
  let ?req = "position_requirements rs"
  let ?sb = "first_pass ?req (\<lambda>pos. 0) ps ([], [])"
  have d: "dom ?req = set requirement_keys"
    by (simp add: position_requirements_def dom_map_of_conv_image_fst image_image)
  have "\<forall>s \<in> set (fst ?sb). position s \<in> set requirement_keys"
    using first_pass_starter_positions [of _ ?req "\<lambda>pos. 0" ps "([], [])"] d by auto
  then have "\<forall>s \<in> set (fst (spec_flex_phase ?req ?sb)). position s \<in> set requirement_keys"
    by (rule spec_flex_phase_positions)
  moreover have "cur_starters (allocate rs ps) = fst (spec_flex_phase ?req ?sb)"
    using allocate_lineup [of rs ps] by (metis fst_conv lineup_def)
  ultimately show ?thesis
    using assms by simp
qed

text \<open>
  C2: in every analysis, a starter at one of the positions QB, RB, WR, TE ranks no worse than
  any bench player of the same position.
\<close>

theorem starters_outrank_bench:
  "let a = analyze_weekly_rankings tsr ratio wr ups sps rs lg
   in \<forall>s \<in> set (starters a). \<forall>b \<in> set (bench a).
        position s = position b \<and> position s \<in> set [''QB'', ''RB'', ''WR'', ''TE'']
        \<longrightarrow> rank s \<le> rank b"
proof -
  define R where "R = user_offensive_players tsr ratio wr ups sps"
  define al where "al = allocate rs R"
  define ordered where
    "ordered = sorted_starters (starters_by_pos (cur_starters al)) (\<lambda>pos. 0) (position_order rs) []"
  define a where "a = analyze_weekly_rankings tsr ratio wr ups sps rs lg"
  have b: "bench a = cur_bench al"
    unfolding a_def al_def R_def by (rule analysis_fields)
  have st: "starters a = ordered
          @ best_available ''K'' (rs_get rs ''K'') (waiver_kickers a) (kickers a)
          @ best_available ''DEF'' (rs_get rs ''DEF'') (waiver_defenses a) (defenses a)"
    unfolding a_def al_def R_def ordered_def by (rule analysis_fields)
  have ro: "ranks_ordered (lineup al)"
    unfolding al_def R_def by (rule allocate_ranks_ordered) (rule sorted_user_offensive_players)
  have "rank s \<le> rank b"
    if s: "s \<in> set (starters a)" and bb: "b \<in> set (bench a)"
      and e: "position s = position b" and p: "position s \<in> set [''QB'', ''RB'', ''WR'', ''TE'']"
    for s b
  proof -
    have "s \<notin> set (best_available ''K'' (rs_get rs ''K'') (waiver_kickers a) (kickers a))"
      and "s \<notin> set (best_available ''DEF'' (rs_get rs ''DEF'') (waiver_defenses a) (defenses a))"
      using p by (auto dest!: best_available_position)
    then have "s \<in> set ordered"
      using s st by simp
    then have "s \<in> set (cur_starters al)"
      using ordered_subset unfolding ordered_def by blast
    then show ?thesis
      using ro bb b e by (auto simp: ranks_ordered_def lineup_def)
  qed
  then show ?thesis
    unfolding Let_def a_def [symmetric] by blast
qed

text \<open>
  The theorem of C2 at the two rows that name Josh Allen: the starter has rank 1, the bench
  player of the same position rank 2.
\<close>

theorem starters_outrank_bench_witness:
  "let a = analyze_weekly_rankings exact_ratio exact_ratio duplicate_rankings
             (on_roster [''1'']) scenario_directory [(''QB'', 1)] []
   in hd (starters a) \<in> set (starters a) \<and> hd (bench a) \<in> set (bench a)
      \<and> position (hd (starters a)) = position (hd (bench a))
      \<and> position (hd (starters a)) \<in> set [''QB'', ''RB'', ''WR'', ''TE'']
      \<and> rank (hd (starters a)) \<le> rank (hd (bench a))"
proof -
  let ?a = "analyze_weekly_rankings exact_ratio exact_ratio duplicate_rankings
             (on_roster [''1'']) scenario_directory [(''QB'', 1)] []"
  have e: "map position (starters ?a) = [''QB''] \<and> map position (bench ?a) = [''QB'']"
    by code_simp
  then have s: "hd (starters ?a) \<in> set (starters ?a)" and b: "hd (bench ?a) \<in> set (bench ?a)"
    by (metis hd_in_set list.distinct(1) list.map_disc_iff)+
  have ps: "position (hd (starters ?a)) = ''QB''" and pb: "position (hd (bench ?a)) = ''QB''"
    using e by (metis list.distinct(1) list.map_disc_iff list.map_sel(1) list.sel(1))+
  have "rank (hd (starters ?a)) \<le> rank (hd (bench ?a))"
    using starters_outrank_bench
      [of exact_ratio exact_ratio duplicate_rankings "on_roster [''1'']" scenario_directory
          "[(''QB'', 1)]" "[]"]
      s b ps pb
    unfolding Let_def by simp
  then show ?thesis
    using s b ps pb unfolding Let_def by simp
qed






text \<open>
  C7, as the code has it. When the settings ask for a kicker and a ranked kicker is on the
  roster or a free agent, exactly one kicker is among the returned starters: one of the
  best rank of the two lists together, flagged \<^verbatim>\<open>is_waiver_wire\<close> exactly when it is not on
  the roster. When the settings ask for none, or there is none, no kicker is among the
  starters. The same holds of the defences.
\<close>

theorem best_kicker_and_defense_start:
  "let a = analyze_weekly_rankings tsr ratio wr ups sps rs lg;
       pk = placed_kickers wr ups sps lg;
       pd = placed_defenses wr ups sps lg;
       kpool = on_roster_entries pk @ waiver_entries pk;
       dpool = on_roster_entries pd @ waiver_entries pd
   in (if 0 < rs_get rs ''K'' \<and> kpool \<noteq> []
       then \<exists>b \<in> set kpool. (\<forall>x \<in> set kpool. e_rank b \<le> e_rank x)
              \<and> filter (\<lambda>s. position s = ''K'') (starters a)
                  = [as_starter ''K'' (\<not> e_is_on_roster b) b]
       else filter (\<lambda>s. position s = ''K'') (starters a) = [])
      \<and> (if 0 < rs_get rs ''DEF'' \<and> dpool \<noteq> []
          then \<exists>b \<in> set dpool. (\<forall>x \<in> set dpool. e_rank b \<le> e_rank x)
                 \<and> filter (\<lambda>s. position s = ''DEF'') (starters a)
                     = [as_starter ''DEF'' (\<not> e_is_on_roster b) b]
          else filter (\<lambda>s. position s = ''DEF'') (starters a) = [])
      \<and> (\<forall>e \<in> set (on_roster_entries pk) \<union> set (on_roster_entries pd). e_is_on_roster e)
      \<and> (\<forall>e \<in> set (waiver_entries pk) \<union> set (waiver_entries pd). \<not> e_is_on_roster e)"
proof -
  define a where "a = analyze_weekly_rankings tsr ratio wr ups sps rs lg"
  define pk where "pk = placed_kickers wr ups sps lg"
  define pd where "pd = placed_defenses wr ups sps lg"
  define al where "al = allocate rs (user_offensive_players tsr ratio wr ups sps)"
  define ordered where
    "ordered = sorted_starters (starters_by_pos (cur_starters al)) (\<lambda>pos. 0) (position_order rs) []"
  define ks where "ks = best_available ''K'' (rs_get rs ''K'') (waiver_kickers a) (kickers a)"
  define ds where "ds = best_available ''DEF'' (rs_get rs ''DEF'') (waiver_defenses a) (defenses a)"
  have st: "starters a = ordered @ ks @ ds"
    unfolding a_def al_def ordered_def ks_def ds_def by (rule analysis_fields)
  have kk: "kickers a = sort_key e_rank (on_roster_entries pk)"
    and wk: "waiver_kickers a
              = take 5 (sort_key e_rank (kickers a @ sort_key e_rank (waiver_entries pk)))"
    and dd: "defenses a = sort_key e_rank (on_roster_entries pd)"
    and wd: "waiver_defenses a
              = take 5 (sort_key e_rank (defenses a @ sort_key e_rank (waiver_entries pd)))"
    unfolding a_def pk_def pd_def by (rule analysis_fields)+
  have flags: "\<forall>e \<in> set (on_roster_entries pk). e_is_on_roster e"
    "\<forall>e \<in> set (waiver_entries pk). \<not> e_is_on_roster e"
    "\<forall>e \<in> set (on_roster_entries pd). e_is_on_roster e"
    "\<forall>e \<in> set (waiver_entries pd). \<not> e_is_on_roster e"
    unfolding pk_def pd_def using placed_flags [of wr ups sps lg] by blast+
  have pos: "position s \<in> set requirement_keys" if "s \<in> set ordered" for s
    using that ordered_subset [of "cur_starters al" "position_order rs"] allocate_positions
    unfolding ordered_def al_def by blast
  have nk: "''K'' \<notin> set requirement_keys" "''DEF'' \<notin> set requirement_keys"
    by (simp_all add: requirement_keys_def)
  have "position s \<noteq> ''K'' \<and> position s \<noteq> ''DEF''" if "s \<in> set ordered" for s
    using pos [OF that] nk by metis
  then have no: "filter (\<lambda>s. position s = ''K'') ordered = []"
    "filter (\<lambda>s. position s = ''DEF'') ordered = []"
    by (simp_all add: filter_empty_conv)
  have fk: "filter (\<lambda>s. position s = ''K'') ks = ks"
    "filter (\<lambda>s. position s = ''DEF'') ks = []"
    unfolding ks_def
    by (auto simp: filter_id_conv filter_empty_conv dest: best_available_position)
  have fd: "filter (\<lambda>s. position s = ''DEF'') ds = ds"
    "filter (\<lambda>s. position s = ''K'') ds = []"
    unfolding ds_def
    by (auto simp: filter_id_conv filter_empty_conv dest: best_available_position)
  have k: "filter (\<lambda>s. position s = ''K'') (starters a) = ks"
    and d: "filter (\<lambda>s. position s = ''DEF'') (starters a) = ds"
    unfolding st by (simp_all add: no fk fd)
  note ck = best_available_choice [OF kk wk flags(1,2), of "rs_get rs ''K''" "''K''",
      folded ks_def]
  note cd = best_available_choice [OF dd wd flags(3,4), of "rs_get rs ''DEF''" "''DEF''",
      folded ds_def]
  have f1: "\<forall>e \<in> set (on_roster_entries pk) \<union> set (on_roster_entries pd). e_is_on_roster e"
    and f2: "\<forall>e \<in> set (waiver_entries pk) \<union> set (waiver_entries pd). \<not> e_is_on_roster e"
    using flags by blast+
  show ?thesis
    unfolding Let_def a_def [symmetric] pk_def [symmetric] pd_def [symmetric] k d
    by (rule conjI [OF ck conjI [OF cd conjI [OF f1 f2]]])
qed

text \<open>
  The theorem of C7 at a ranking of two kickers, the better one a free agent, and of one
  defence: the free agent Jake Elliott starts, flagged as a waiver-wire pick.
\<close>

theorem best_kicker_and_defense_start_witness:
  "let a = analyze_weekly_rankings exact_ratio exact_ratio kicker_rankings
             (on_roster [''1'', ''2'', ''3'', ''8'']) scenario_directory
             [(''QB'', 1), (''RB'', 1), (''FLEX'', 1), (''K'', 1), (''DEF'', 1)]
             (on_roster [''1'', ''2'', ''3'', ''8'']);
       pk = placed_kickers kicker_rankings (on_roster [''1'', ''2'', ''3'', ''8''])
              scenario_directory (on_roster [''1'', ''2'', ''3'', ''8'']);
       kpool = on_roster_entries pk @ waiver_entries pk
   in 0 < rs_get [(''QB'', 1), (''RB'', 1), (''FLEX'', 1), (''K'', 1), (''DEF'', 1)] ''K''
      \<and> map e_name kpool = [''Harrison Butker'', ''Jake Elliott'']
      \<and> map name (filter (\<lambda>s. position s = ''K'') (starters a)) = [''Jake Elliott'']
      \<and> map is_waiver_wire (filter (\<lambda>s. position s = ''K'') (starters a)) = [True]
      \<and> (\<exists>b \<in> set kpool. (\<forall>x \<in> set kpool. e_rank b \<le> e_rank x)
            \<and> filter (\<lambda>s. position s = ''K'') (starters a)
                = [as_starter ''K'' (\<not> e_is_on_roster b) b])"
proof -
  let ?ups = "on_roster [''1'', ''2'', ''3'', ''8'']"
  let ?rs = "[(''QB'', 1), (''RB'', 1), (''FLEX'', 1), (''K'', 1), (''DEF'', 1)]"
  let ?a = "analyze_weekly_rankings exact_ratio exact_ratio kicker_rankings ?ups
              scenario_directory ?rs ?ups"
  let ?pk = "placed_kickers kicker_rankings ?ups scenario_directory ?ups"
  let ?kpool = "on_roster_entries ?pk @ waiver_entries ?pk"
  note t = best_kicker_and_defense_start
      [of exact_ratio exact_ratio kicker_rankings ?ups scenario_directory ?rs ?ups,
       unfolded Let_def]
  have n: "0 < rs_get ?rs ''K''"
    by code_simp
  have p: "map e_name ?kpool = [''Harrison Butker'', ''Jake Elliott'']"
    by code_simp
  then have ne: "?kpool \<noteq> []"
    by (metis list.distinct(1) list.map_disc_iff)
  have v: "map name (filter (\<lambda>s. position s = ''K'') (starters ?a)) = [''Jake Elliott'']
      \<and> map is_waiver_wire (filter (\<lambda>s. position s = ''K'') (starters ?a)) = [True]"
    by code_simp
  have "\<exists>b \<in> set ?kpool. (\<forall>x \<in> set ?kpool. e_rank b \<le> e_rank x)
            \<and> filter (\<lambda>s. position s = ''K'') (starters ?a)
                = [as_starter ''K'' (\<not> e_is_on_roster b) b]"
    using t n ne by (simp only: simp_thms if_True)
  then show ?thesis
    unfolding Let_def using n p v by blast
qed

text \<open>
  C7 as stated fails: with settings that have no kicker and no defence slot, the same
  rankings give starters of the positions QB, RB and RB only.
\<close>

theorem no_kicker_slot_counterexample:
  "map position (starters (analyze_weekly_rankings exact_ratio exact_ratio kicker_rankings
       (on_roster [''1'', ''2'', ''3'', ''8'']) scenario_directory
       [(''QB'', 1), (''RB'', 1), (''FLEX'', 1)] (on_roster [''1'', ''2'', ''3'', ''8''])))
   = [''QB'', ''RB'', ''RB'']"
  by code_simp

end
